theory Spec2Isabelle
  imports Main "HOL-Library.Sublist" "HOL-Library.AList" "HOL-Library.Word"
begin

section \<open>Data model (types.ts)\<close>

text \<open>
  The task record of \<^verbatim>\<open>types.ts\<close> and the component state of \<^verbatim>\<open>App.tsx\<close>.
  A JavaScript string is modelled as a HOL \<^typ>\<open>string\<close>, one \<^typ>\<open>char\<close> per code unit
  (so the model covers code units below 256).

  The values that reach the task fields \<^verbatim>\<open>title\<close>, \<^verbatim>\<open>thumbnail\<close> and \<^verbatim>\<open>downloadUrl\<close> come
  out of \<^verbatim>\<open>JSON.parse\<close> through a result typed \<^verbatim>\<open>any\<close>; the TypeScript annotations are
  erased at run time, so these fields hold JSON values. \<open>None\<close> is JavaScript's
  \<^verbatim>\<open>undefined\<close>. The property list of an object holds each key once.

  JavaScript numbers are doubles. The model covers the integers among them that a double
  holds exactly and prints with all their digits, the safe integers from \<open>- (2 ^ 53)\<close> to
  \<open>2 ^ 53 - 1\<close>: they are the signed values of a 54-bit word.
\<close>

datatype TaskStatus = IDLE | QUEUED | DOWNLOADING | COMPLETED | ERROR

datatype json =
    JNull
  | JBool bool
  | JNum "54 word"
  | JStr string
  | JArr "json list"
  | JObj "(string \<times> json) list"

record VideoTask =
  task_id :: string
  url :: string
  status :: TaskStatus
  progress :: int
  title :: "json option"
  thumbnail :: "json option"
  downloadUrl :: "json option"
  errorMessage :: "string option"

section \<open>Queue operations that do not touch the network (App.tsx)\<close>

text \<open>
  \<^verbatim>\<open>addLinks\<close>: the identifiers come from \<^verbatim>\<open>Math.random\<close>; the model takes each link together
  with the identifier drawn for it.
  \<^verbatim>\<open>
  const newTasks = links.map(url => ({ id: Math.random()..., url, status: TaskStatus.IDLE, progress: 0 }));
  setTasks(prev => [...prev, ...newTasks]);
  \<close>
\<close>

definition newTask :: "string \<times> string \<Rightarrow> VideoTask" where
  "newTask p = \<lparr> task_id = fst p, url = snd p, status = IDLE, progress = 0,
                 title = None, thumbnail = None, downloadUrl = None, errorMessage = None \<rparr>"

definition addLinks :: "(string \<times> string) list \<Rightarrow> VideoTask list \<Rightarrow> VideoTask list" where
  "addLinks links prev = prev @ map newTask links"

text \<open>\<^verbatim>\<open>setTasks(prev => prev.filter(t => t.id !== id))\<close>\<close>

definition removeTask :: "string \<Rightarrow> VideoTask list \<Rightarrow> VideoTask list" where
  "removeTask i prev = filter (\<lambda>t. task_id t \<noteq> i) prev"

text \<open>\<^verbatim>\<open>setTasks(prev => prev.filter(t => t.status !== TaskStatus.COMPLETED))\<close>\<close>

definition clearCompleted :: "VideoTask list \<Rightarrow> VideoTask list" where
  "clearCompleted prev = filter (\<lambda>t. status t \<noteq> COMPLETED) prev"

text \<open>
  The snapshot taken at the start of \<^verbatim>\<open>processBatch\<close>:
  \<^verbatim>\<open>tasks.filter(t => t.status === TaskStatus.IDLE || t.status === TaskStatus.ERROR)\<close>
\<close>

definition pendingTasks :: "VideoTask list \<Rightarrow> VideoTask list" where
  "pendingTasks tasks = filter (\<lambda>t. status t = IDLE \<or> status t = ERROR) tasks"

text \<open>
  The state update of \<^verbatim>\<open>handleRetryAllErrors\<close>:
  \<^verbatim>\<open>
  prev.map(t => t.status === TaskStatus.ERROR
     ? { ...t, status: TaskStatus.IDLE, errorMessage: undefined, progress: 0 } : t)
  \<close>
\<close>

definition resetErrors :: "VideoTask list \<Rightarrow> VideoTask list" where
  "resetErrors prev =
     map (\<lambda>t. if status t = ERROR
               then t\<lparr>status := IDLE, errorMessage := None, progress := 0\<rparr> else t) prev"

section \<open>JavaScript values and strings\<close>

text \<open>Truthiness of a JSON value; \<^verbatim>\<open>undefined\<close> is falsy.\<close>

fun truthy :: "json \<Rightarrow> bool" where
  "truthy JNull = False"
| "truthy (JBool b) = b"
| "truthy (JNum n) = (n \<noteq> 0)"
| "truthy (JStr s) = (s \<noteq> [])"
| "truthy (JArr xs) = True"
| "truthy (JObj kvs) = True"

definition truthyU :: "json option \<Rightarrow> bool" where
  "truthyU v = (case v of None \<Rightarrow> False | Some j \<Rightarrow> truthy j)"

text \<open>
  Reading a property \<^verbatim>\<open>v.k\<close> for the keys the program reads (\<^verbatim>\<open>code\<close>, \<^verbatim>\<open>msg\<close>, \<^verbatim>\<open>data\<close>,
  \<^verbatim>\<open>title\<close>, \<^verbatim>\<open>id\<close>, \<^verbatim>\<open>cover\<close>, \<^verbatim>\<open>play\<close>, \<^verbatim>\<open>size\<close>, \<^verbatim>\<open>contents\<close>): an object yields its own
  property, every other value yields \<^verbatim>\<open>undefined\<close>. On \<^verbatim>\<open>null\<close> JavaScript throws unless the
  read is guarded (\<^verbatim>\<open>data && ...\<close>, \<^verbatim>\<open>data?.msg\<close>); the one unguarded read is modelled where
  it happens.
\<close>

fun getProp :: "json \<Rightarrow> string \<Rightarrow> json option" where
  "getProp (JObj kvs) k = map_of kvs k"
| "getProp v k = None"

text \<open>\<^verbatim>\<open>Number.prototype.toString\<close> on a safe integer: its decimal digits.\<close>

definition digitChar :: "nat \<Rightarrow> char" where
  "digitChar d = char_of (d + 48)"

fun decimal :: "nat \<Rightarrow> string" where
  "decimal n = (if n div 10 = 0 then [digitChar n] else decimal (n div 10) @ [digitChar (n mod 10)])"

definition numberToString :: "54 word \<Rightarrow> string" where
  "numberToString n =
     (if 0 \<le> sint n then decimal (nat (sint n)) else CHR ''-'' # decimal (nat (- sint n)))"

fun joinComma :: "string list \<Rightarrow> string" where
  "joinComma [] = []"
| "joinComma [s] = s"
| "joinComma (s # t # r) = s @ '','' @ joinComma (t # r)"

text \<open>JavaScript's string conversion (\<^verbatim>\<open>String(v)\<close>, template literals, \<^verbatim>\<open>new Error(v)\<close>).\<close>

fun toString :: "json \<Rightarrow> string" where
  "toString JNull = ''null''"
| "toString (JBool b) = (if b then ''true'' else ''false'')"
| "toString (JNum n) = numberToString n"
| "toString (JStr s) = s"
| "toString (JArr xs) = joinComma (map (\<lambda>x. case x of JNull \<Rightarrow> [] | _ \<Rightarrow> toString x) xs)"
| "toString (JObj kvs) = ''[object Object]''"

definition toStringU :: "json option \<Rightarrow> string" where
  "toStringU v = (case v of None \<Rightarrow> ''undefined'' | Some j \<Rightarrow> toString j)"

text \<open>\<^verbatim>\<open>String.prototype.toLowerCase\<close> on code units below 256.\<close>

definition lowerChar :: "char \<Rightarrow> char" where
  "lowerChar c =
     (let n = (of_char c :: nat)
      in if (65 \<le> n \<and> n \<le> 90) \<or> (192 \<le> n \<and> n \<le> 222 \<and> n \<noteq> 215)
         then char_of (n + 32) else c)"

definition toLowerCase :: "string \<Rightarrow> string" where
  "toLowerCase s = map lowerChar s"

text \<open>\<^verbatim>\<open>String.prototype.includes\<close>\<close>

fun includesStr :: "string \<Rightarrow> string \<Rightarrow> bool" where
  "includesStr [] sub = (sub = [])"
| "includesStr (c # cs) sub = (prefix sub (c # cs) \<or> includesStr cs sub)"

section \<open>The environment\<close>

text \<open>
  Everything the program observes from outside is a parameter:
  \<^item> \<open>encodeURIComponent\<close> and \<open>JSON_parse\<close> are the built-ins (\<open>JSON_parse\<close> yields \<open>None\<close>
    where \<^verbatim>\<open>JSON.parse\<close> throws);
  \<^item> \<open>net\<close> answers a request from the history of effects so far, the request URL and the
    abort deadline in milliseconds (\<open>None\<close>: no abort signal).
  The effects of the program are recorded in a log: every \<^verbatim>\<open>fetch\<close> with its URL and
  deadline, every awaited \<^verbatim>\<open>setTimeout\<close> with its duration.
\<close>

datatype event = Fetch string "nat option" | Sleep nat

text \<open>
  \<open>Rejected\<close>: the \<^verbatim>\<open>fetch\<close> promise rejects (network error, or abort at the deadline).
  \<open>Response ok body\<close>: \<^verbatim>\<open>response.ok\<close>, and the body (\<open>None\<close> when reading it rejects).
\<close>

datatype response = Rejected | Response bool "string option"

record world =
  encodeURIComponent :: "string \<Rightarrow> string"
  JSON_parse :: "string \<Rightarrow> json option"
  net :: "event list \<Rightarrow> string \<Rightarrow> nat option \<Rightarrow> response"

datatype error = Error string

fun message :: "error \<Rightarrow> string" where
  "message (Error m) = m"

section \<open>fetchWithProxies (App.tsx)\<close>

datatype fetchType = TJson | TBlob

datatype payload = PJson json | PBlob string

definition strategies :: "world \<Rightarrow> (string \<Rightarrow> string) list" where
  "strategies w =
     [\<lambda>u. ''https://corsproxy.io/?'' @ encodeURIComponent w u,
      \<lambda>u. ''https://api.allorigins.win/raw?url='' @ encodeURIComponent w u,
      \<lambda>u. ''https://api.codetabs.com/v1/proxy?quest='' @ encodeURIComponent w u,
      \<lambda>u. u]"

definition timeoutFor :: "fetchType \<Rightarrow> nat" where
  "timeoutFor ty = (if ty = TBlob then 15000 else 8000)"

text \<open>
  The body of the loop for one strategy, at history \<open>log\<close> and request URL \<open>u\<close>: \<open>None\<close> is
  a \<^verbatim>\<open>continue\<close> (a rejected or aborted request, a non-ok status, an unreadable body and,
  for \<^verbatim>\<open>'json'\<close>, a body that does not parse), \<open>Some\<close> is a \<^verbatim>\<open>return\<close>.
\<close>

definition attempt :: "world \<Rightarrow> fetchType \<Rightarrow> event list \<Rightarrow> string \<Rightarrow> payload option" where
  "attempt w ty log u =
     (case net w log u (Some (timeoutFor ty)) of
        Rejected \<Rightarrow> None
      | Response ok body \<Rightarrow>
          (case body of
             None \<Rightarrow> None
           | Some text \<Rightarrow>
               if \<not> ok then None
               else (case ty of TJson \<Rightarrow> map_option PJson (JSON_parse w text)
                              | TBlob \<Rightarrow> Some (PBlob text))))"

text \<open>
  The loop \<^verbatim>\<open>for (const createProxyUrl of strategies)\<close>, written out with the body in
  place. Every \<^verbatim>\<open>continue\<close> of the source (non-ok status, unparseable text, any exception)
  is the recursive call on the remaining strategies; the two \<^verbatim>\<open>return\<close>s leave the loop.
\<close>

fun tryStrategies ::
  "world \<Rightarrow> (string \<Rightarrow> string) list \<Rightarrow> string \<Rightarrow> fetchType \<Rightarrow> event list
     \<Rightarrow> payload option \<times> event list" where
  "tryStrategies w [] targetUrl ty log = (None, log)"
| "tryStrategies w (createProxyUrl # rest) targetUrl ty log =
     (let u = createProxyUrl targetUrl;
          log' = log @ [Fetch u (Some (timeoutFor ty))]
      in case net w log u (Some (timeoutFor ty)) of
           Rejected \<Rightarrow> tryStrategies w rest targetUrl ty log'
         | Response ok body \<Rightarrow>
             if \<not> ok then tryStrategies w rest targetUrl ty log'
             else (case body of
                     None \<Rightarrow> tryStrategies w rest targetUrl ty log'
                   | Some text \<Rightarrow>
                       (case ty of
                          TJson \<Rightarrow>
                            (case JSON_parse w text of
                               Some v \<Rightarrow> (Some (PJson v), log')
                             | None \<Rightarrow> tryStrategies w rest targetUrl ty log')
                        | TBlob \<Rightarrow> (Some (PBlob text), log'))))"

text \<open>
  The fallback for \<^verbatim>\<open>type === 'json'\<close>: one request to the \<^verbatim>\<open>/get\<close> endpoint, without abort
  signal. \<^verbatim>\<open>res.json()\<close> parses the body; \<^verbatim>\<open>wrapper.contents\<close> throws on \<^verbatim>\<open>null\<close> (caught);
  a truthy \<^verbatim>\<open>contents\<close> is parsed, and returned as it is when it does not parse:
  \<^verbatim>\<open>
  try { return JSON.parse(wrapper.contents); } catch { return wrapper.contents; }
  \<close>
  \<open>None\<close> means that control reaches the final \<^verbatim>\<open>throw\<close>.
\<close>

definition wrappedUrl :: "world \<Rightarrow> string \<Rightarrow> string" where
  "wrappedUrl w targetUrl = ''https://api.allorigins.win/get?url='' @ encodeURIComponent w targetUrl"

definition wrappedFallback :: "world \<Rightarrow> string \<Rightarrow> event list \<Rightarrow> json option \<times> event list" where
  "wrappedFallback w targetUrl log =
     (let u = wrappedUrl w targetUrl;
          log' = log @ [Fetch u None]
      in case net w log u None of
           Rejected \<Rightarrow> (None, log')
         | Response ok body \<Rightarrow>
             if ok then
               (case body of
                  None \<Rightarrow> (None, log')
                | Some text \<Rightarrow>
                    (case JSON_parse w text of
                       None \<Rightarrow> (None, log')
                     | Some JNull \<Rightarrow> (None, log')
                     | Some wrapper \<Rightarrow>
                         (case getProp wrapper ''contents'' of
                            None \<Rightarrow> (None, log')
                          | Some contents \<Rightarrow>
                              if truthy contents then
                                (case JSON_parse w (toString contents) of
                                   Some v \<Rightarrow> (Some v, log')
                                 | None \<Rightarrow> (Some contents, log'))
                              else (None, log'))))
             else (None, log'))"

definition allProxiesFailed :: error where
  "allProxiesFailed = Error ''All proxies failed to fetch data.''"

definition fetchWithProxies ::
  "world \<Rightarrow> string \<Rightarrow> fetchType \<Rightarrow> event list \<Rightarrow> (error + payload) \<times> event list" where
  "fetchWithProxies w targetUrl ty log =
     (case tryStrategies w (strategies w) targetUrl ty log of
        (Some p, log1) \<Rightarrow> (Inr p, log1)
      | (None, log1) \<Rightarrow>
          if ty = TJson then
            (case wrappedFallback w targetUrl log1 of
               (Some v, log2) \<Rightarrow> (Inr (PJson v), log2)
             | (None, log2) \<Rightarrow> (Inl allProxiesFailed, log2))
          else (Inl allProxiesFailed, log1))"

section \<open>resolveVideoData (App.tsx)\<close>

record videoData =
  data_title :: json
  data_thumbnail :: "json option"
  data_downloadUrl :: "json option"
  data_size :: "json option"

definition apiUrl :: "world \<Rightarrow> string \<Rightarrow> string" where
  "apiUrl w u = ''https://www.tikwm.com/api/?url='' @ encodeURIComponent w u"

text \<open>The test \<^verbatim>\<open>m.toLowerCase().includes('limit')\<close>, which the source writes twice.\<close>

definition aboutLimit :: "string \<Rightarrow> bool" where
  "aboutLimit m = includesStr (toLowerCase m) ''limit''"

text \<open>
  The \<^verbatim>\<open>try\<close> block after the fetch has three ways out: it returns the resolved data, it
  returns the recursive call after a delay (whose rejection is not caught by this
  \<^verbatim>\<open>catch\<close>, since the promise is returned without \<^verbatim>\<open>await\<close>), or it throws into the
  \<^verbatim>\<open>catch\<close> block.
\<close>

datatype tryOutcome = Returned videoData | Recurse nat | Thrown error

text \<open>
  \<^verbatim>\<open>
  title: data.data.title || `tiktok_video_${data.data.id}`,
  thumbnail: data.data.cover, downloadUrl: data.data.play, size: data.data.size
  \<close>
\<close>

definition extractData :: "json \<Rightarrow> videoData" where
  "extractData d =
     \<lparr> data_title = (case getProp d ''title'' of
                        Some t \<Rightarrow> if truthy t then t
                                  else JStr (''tiktok_video_'' @ toStringU (getProp d ''id''))
                      | None \<Rightarrow> JStr (''tiktok_video_'' @ toStringU (getProp d ''id''))),
       data_thumbnail = getProp d ''cover'',
       data_downloadUrl = getProp d ''play'',
       data_size = getProp d ''size'' \<rparr>"

text \<open>
  The \<^verbatim>\<open>else\<close> branch of the response check:
  \<^verbatim>\<open>
  if (data?.msg && typeof data.msg === 'string' && data.msg.toLowerCase().includes('limit')) {
     if (retryCount < 3) { await new Promise(r => setTimeout(r, 2000 + (retryCount * 1000)));
                           return resolveVideoData(url, retryCount + 1); } }
  throw new Error(data?.msg || 'Video not found');
  \<close>
\<close>

definition notFound :: "json \<Rightarrow> nat \<Rightarrow> tryOutcome" where
  "notFound data retryCount =
     (let msg = getProp data ''msg''
      in if (case msg of Some (JStr m) \<Rightarrow> m \<noteq> [] \<and> aboutLimit m | _ \<Rightarrow> False) \<and> retryCount < 3
         then Recurse (2000 + retryCount * 1000)
         else Thrown (Error (if truthyU msg then toStringU msg else ''Video not found'')))"

text \<open>
  The \<^verbatim>\<open>try\<close> block, from the outcome of \<^verbatim>\<open>fetchWithProxies(apiUrl, 'json')\<close>. The success
  test is \<^verbatim>\<open>data && data.code === 0 && data.data\<close>. (A blob never comes back for
  \<^verbatim>\<open>'json'\<close>; it would have no \<^verbatim>\<open>code\<close> and no \<^verbatim>\<open>msg\<close>.)
\<close>

definition tryBlock :: "error + payload \<Rightarrow> nat \<Rightarrow> tryOutcome" where
  "tryBlock res retryCount =
     (case res of
        Inl err \<Rightarrow> Thrown err
      | Inr (PBlob b) \<Rightarrow> Thrown (Error ''Video not found'')
      | Inr (PJson data) \<Rightarrow>
          (case getProp data ''data'' of
             Some d \<Rightarrow>
               if truthy data \<and> getProp data ''code'' = Some (JNum 0) \<and> truthy d
               then Returned (extractData d)
               else notFound data retryCount
           | None \<Rightarrow> notFound data retryCount))"

text \<open>
  \<^verbatim>\<open>
  } catch (error: any) {
    if (error.message && error.message.toLowerCase().includes('limit') && retryCount < 3) {
       await new Promise(r => setTimeout(r, 2000));
       return resolveVideoData(url, retryCount + 1);
    }
    throw new Error(error.message || 'Video data not found. Link might be invalid.');
  }
  \<close>
\<close>

function resolveVideoData ::
  "world \<Rightarrow> string \<Rightarrow> nat \<Rightarrow> event list \<Rightarrow> (error + videoData) \<times> event list" where
  "resolveVideoData w u retryCount log =
     (case fetchWithProxies w (apiUrl w u) TJson log of
        (res, log1) \<Rightarrow>
          (case tryBlock res retryCount of
             Returned d \<Rightarrow> (Inr d, log1)
           | Recurse ms \<Rightarrow> resolveVideoData w u (retryCount + 1) (log1 @ [Sleep ms])
           | Thrown err \<Rightarrow>
               if message err \<noteq> [] \<and> aboutLimit (message err) \<and> retryCount < 3
               then resolveVideoData w u (retryCount + 1) (log1 @ [Sleep 2000])
               else (Inl (Error (if message err \<noteq> [] then message err
                                 else ''Video data not found. Link might be invalid.'')),
                     log1)))"
  by pat_completeness auto
termination
  by (relation "measure (\<lambda>(w, u, retryCount, log). 3 - retryCount)")
     (auto simp: tryBlock_def notFound_def Let_def
           split: sum.splits payload.splits option.splits if_splits)

section \<open>The queue and processBatch (App.tsx)\<close>

record app =
  tasks :: "VideoTask list"
  isProcessing :: bool
  isZipping :: bool
  events :: "event list"

text \<open>
  \<^verbatim>\<open>
  setTasks(prev => prev.map(t => {
    if (chunk.find(c => c.id === t.id))
      return { ...t, status: TaskStatus.DOWNLOADING, progress: 20, errorMessage: undefined };
    return t; }));
  \<close>
\<close>

definition markDownloading :: "VideoTask list \<Rightarrow> VideoTask list \<Rightarrow> VideoTask list" where
  "markDownloading chunk prev =
     map (\<lambda>t. if find (\<lambda>c. task_id c = task_id t) chunk \<noteq> None
               then t\<lparr>status := DOWNLOADING, progress := 20, errorMessage := None\<rparr>
               else t) prev"

definition markCompleted :: "string \<Rightarrow> videoData \<Rightarrow> VideoTask list \<Rightarrow> VideoTask list" where
  "markCompleted i d prev =
     map (\<lambda>t. if task_id t = i
               then t\<lparr>title := Some (data_title d), thumbnail := data_thumbnail d,
                      downloadUrl := data_downloadUrl d, status := COMPLETED, progress := 100\<rparr>
               else t) prev"

text \<open>The fallback text differs between the two callers and is a parameter.\<close>

definition markFailed :: "string \<Rightarrow> error \<Rightarrow> string \<Rightarrow> VideoTask list \<Rightarrow> VideoTask list" where
  "markFailed i err fallback prev =
     map (\<lambda>t. if task_id t = i
               then t\<lparr>status := ERROR,
                      errorMessage := Some (if message err \<noteq> [] then message err else fallback),
                      progress := 0\<rparr>
               else t) prev"

text \<open>The body of \<^verbatim>\<open>chunk.map(async (task) => { try {...} catch {...} })\<close> for one task.\<close>

definition processTask :: "world \<Rightarrow> VideoTask \<Rightarrow> app \<Rightarrow> app" where
  "processTask w task st =
     (case resolveVideoData w (url task) 0 (events st) of
        (Inr d, log1) \<Rightarrow> st\<lparr>tasks := markCompleted (task_id task) d (tasks st), events := log1\<rparr>
      | (Inl err, log1) \<Rightarrow>
          st\<lparr>tasks := markFailed (task_id task) err ''Failed to fetch.'' (tasks st),
             events := log1\<rparr>)"

definition BATCH_SIZE :: nat where
  "BATCH_SIZE = 1"

text \<open>
  The loop \<^verbatim>\<open>for (let i = 0; i < pendingTasks.length; i += BATCH_SIZE)\<close>. The members of a
  chunk are run one after the other, which is what \<^verbatim>\<open>Promise.all\<close> over a chunk of
  \<^verbatim>\<open>BATCH_SIZE = 1\<close> task does.
\<close>

function batchLoop :: "world \<Rightarrow> VideoTask list \<Rightarrow> nat \<Rightarrow> app \<Rightarrow> app" where
  "batchLoop w pending i st =
     (if i < length pending then
        (let chunk = take BATCH_SIZE (drop i pending);
             st1 = st\<lparr>tasks := markDownloading chunk (tasks st)\<rparr>;
             st2 = fold (processTask w) chunk st1;
             st3 = (if i + BATCH_SIZE < length pending
                    then st2\<lparr>events := events st2 @ [Sleep 1300]\<rparr> else st2)
         in batchLoop w pending (i + BATCH_SIZE) st3)
      else st)"
  by pat_completeness auto
termination
  by (relation "measure (\<lambda>(w, pending, i, st). length pending - i)")
     (auto simp: BATCH_SIZE_def)

text \<open>
  \<^verbatim>\<open>processBatch\<close> is a \<^verbatim>\<open>useCallback\<close> closure: \<open>isProcessingC\<close> and \<open>tasksC\<close> are the values of
  \<^verbatim>\<open>isProcessing\<close> and \<^verbatim>\<open>tasks\<close> it captured when it was created, while every
  \<^verbatim>\<open>setTasks(prev => ...)\<close> acts on the live state.
\<close>

definition processBatch :: "world \<Rightarrow> bool \<Rightarrow> VideoTask list \<Rightarrow> app \<Rightarrow> app" where
  "processBatch w isProcessingC tasksC st =
     (if isProcessingC then st
      else if length (pendingTasks tasksC) = 0 then st\<lparr>isProcessing := False\<rparr>
      else (batchLoop w (pendingTasks tasksC) 0 (st\<lparr>isProcessing := True\<rparr>))
             \<lparr>isProcessing := False\<rparr>)"

text \<open>The "Start Download" button calls the closure of the current render.\<close>

definition startDownload :: "world \<Rightarrow> app \<Rightarrow> app" where
  "startDownload w st = processBatch w (isProcessing st) (tasks st) st"

text \<open>
  \<^verbatim>\<open>handleRetryAllErrors\<close> resets the failed tasks and, 100 ms later, calls the
  \<^verbatim>\<open>processBatch\<close> closure of the render in which the button was clicked, whose \<^verbatim>\<open>tasks\<close> are
  those from before the reset.
\<close>

definition handleRetryAllErrors :: "world \<Rightarrow> app \<Rightarrow> app" where
  "handleRetryAllErrors w st =
     processBatch w (isProcessing st) (tasks st)
       (st\<lparr>tasks := resetErrors (tasks st), events := events st @ [Sleep 100]\<rparr>)"

definition handleSingleRetry :: "world \<Rightarrow> string \<Rightarrow> app \<Rightarrow> app" where
  "handleSingleRetry w i st =
     (case find (\<lambda>t. task_id t = i) (tasks st) of
        None \<Rightarrow> st
      | Some task \<Rightarrow>
          (let prev = map (\<lambda>t. if task_id t = i
                                then t\<lparr>status := DOWNLOADING, progress := 20, errorMessage := None\<rparr>
                                else t) (tasks st)
           in case resolveVideoData w (url task) 0 (events st) of
                (Inr d, log1) \<Rightarrow> st\<lparr>tasks := markCompleted i d prev, events := log1\<rparr>
              | (Inl err, log1) \<Rightarrow>
                  st\<lparr>tasks := markFailed i err ''Retry failed.'' prev, events := log1\<rparr>))"

section \<open>handleBulkDownload (App.tsx)\<close>

text \<open>
  The archive is the \<^verbatim>\<open>files\<close> table of the JSZip object: entries in insertion order, keyed
  by their full path. \<^verbatim>\<open>zip.folder(name)\<close> adds the directory entry \<^verbatim>\<open>name/\<close>, and
  \<^verbatim>\<open>folder.file(name, data)\<close> adds the entry \<^verbatim>\<open>folder/name\<close> or replaces the data of the entry
  that already has this path.
\<close>

datatype zipData = Folder | BlobData string | TextData string

definition folderPath :: string where
  "folderPath = ''TikTok_Batch_Download/''"

definition zipFile :: "string \<Rightarrow> zipData \<Rightarrow> (string \<times> zipData) list \<Rightarrow> (string \<times> zipData) list" where
  "zipFile name d z = AList.update (folderPath @ name) d z"

text \<open>
  \<^verbatim>\<open>(task.title || `video_${task.id}`).replace(/[^a-z0-9]/gi, '_').substring(0, 50)\<close>.
  A truthy title that is not a string has no \<^verbatim>\<open>replace\<close> method: the call throws a
  TypeError.
\<close>

definition isAlnum :: "char \<Rightarrow> bool" where
  "isAlnum c =
     (let n = (of_char c :: nat)
      in (48 \<le> n \<and> n \<le> 57) \<or> (65 \<le> n \<and> n \<le> 90) \<or> (97 \<le> n \<and> n \<le> 122))"

definition sanitize :: "string \<Rightarrow> string" where
  "sanitize s = take 50 (map (\<lambda>c. if isAlnum c then c else CHR ''_'') s)"

definition safeTitle :: "VideoTask \<Rightarrow> error + string" where
  "safeTitle task =
     (case title task of
        None \<Rightarrow> Inr (sanitize (''video_'' @ task_id task))
      | Some t \<Rightarrow>
          if truthy t then
            (case t of JStr s \<Rightarrow> Inr (sanitize s)
                     | _ \<Rightarrow> Inl (Error ''TypeError: replace is not a function''))
          else Inr (sanitize (''video_'' @ task_id task)))"

text \<open>
  \<^verbatim>\<open>`Failed to download: ${task.url}\nError: Could not fetch video data via proxies.`\<close>
\<close>

definition placeholder :: "VideoTask \<Rightarrow> string" where
  "placeholder task =
     ''Failed to download: '' @ url task @ [CHR 0x0A]
       @ ''Error: Could not fetch video data via proxies.''"

text \<open>What \<^verbatim>\<open>folder.file\<close> stores for a fetched payload (a \<^verbatim>\<open>'blob'\<close> fetch yields a blob).\<close>

fun payloadData :: "payload \<Rightarrow> zipData" where
  "payloadData (PBlob b) = BlobData b"
| "payloadData (PJson j) = TextData (toString j)"

record zipping =
  zip :: "(string \<times> zipData) list"
  zlog :: "event list"
  rejected :: bool

text \<open>
  \<^verbatim>\<open>await Promise.all(chunk.map(async (task) => {...}))\<close> starts the body of every member
  of the chunk, in the order of the chunk, each running up to its first \<^verbatim>\<open>await\<close>: the
  request of the first strategy of \<^verbatim>\<open>fetchWithProxies(task.downloadUrl, 'blob')\<close>. From
  then on the members advance in the order in which their responses arrive, which the
  program does not control. A member that waits for a response is recorded with its
  task, its file name, the outcome of the request it waits for, and the number of
  strategies it has used.
\<close>

datatype pending =
  Pending (ptask: VideoTask) (pname: string) (presult: "payload option") (pnext: nat)

text \<open>
  A member issues the request of strategy \<open>k\<close> of \<^verbatim>\<open>fetchWithProxies\<close> and waits for the
  response (the callers keep \<open>k\<close> below the number of strategies). The network decides
  the outcome from the history at the time of the request.
\<close>

definition issue :: "world \<Rightarrow> VideoTask \<Rightarrow> string \<Rightarrow> nat \<Rightarrow> zipping \<Rightarrow> pending \<times> zipping" where
  "issue w task name k s =
     (let u = (strategies w ! k) (toStringU (downloadUrl task))
      in (Pending task name (attempt w TBlob (zlog s) u) (Suc k),
          s\<lparr>zlog := zlog s @ [Fetch u (Some (timeoutFor TBlob))]\<rparr>))"

text \<open>
  The body of a member up to its first request. A member without download URL returns
  at once. The TypeError of \<open>safeTitle\<close> is thrown outside the inner \<^verbatim>\<open>try\<close>: it rejects
  the promise of the member, and with it \<^verbatim>\<open>Promise.all\<close>.
\<close>

definition startMember ::
  "world \<Rightarrow> VideoTask \<Rightarrow> pending list \<times> zipping \<Rightarrow> pending list \<times> zipping" where
  "startMember w task = (\<lambda>(act, s).
     if \<not> truthyU (downloadUrl task) then (act, s)
     else case safeTitle task of
            Inl e \<Rightarrow> (act, s\<lparr>rejected := True\<rparr>)
          | Inr name \<Rightarrow> (case issue w task name 0 s of (p, s') \<Rightarrow> (act @ [p], s')))"

text \<open>
  A member whose response has arrived runs to its next \<^verbatim>\<open>await\<close> or to its end. With a
  payload it stores the media file (\<^verbatim>\<open>folder?.file(fileName, blob)\<close>). After a failed
  attempt it goes on to the request of the next strategy; after the last strategy
  \<^verbatim>\<open>fetchWithProxies\<close> throws (there is no wrapped fallback for \<^verbatim>\<open>'blob'\<close>), and the \<^verbatim>\<open>catch\<close> of
  the member stores the placeholder.
\<close>

definition resume :: "world \<Rightarrow> pending \<Rightarrow> zipping \<Rightarrow> pending option \<times> zipping" where
  "resume w m s =
     (case presult m of
        Some p \<Rightarrow> (None, s\<lparr>zip := zipFile (pname m @ ''.mp4'') (payloadData p) (zip s)\<rparr>)
      | None \<Rightarrow>
          if pnext m < length (strategies w)
          then (case issue w (ptask m) (pname m) (pnext m) s of (m', s') \<Rightarrow> (Some m', s'))
          else (None, s\<lparr>zip := zipFile (pname m @ ''_error.txt'')
                                  (TextData (placeholder (ptask m))) (zip s)\<rparr>))"

text \<open>
  The order of arrival is a parameter of the model: \<open>sched\<close> names, step by step, the
  waiting member whose response arrives next, by its position among the waiting members
  (modulo their number; the first one when the schedule is used up). \<^verbatim>\<open>Promise.all\<close> is
  settled when no member waits any more.
\<close>

definition pick :: "nat list \<Rightarrow> pending list \<Rightarrow> nat" where
  "pick sched act = (case sched of [] \<Rightarrow> 0 | k # ks \<Rightarrow> k mod length act)"

text \<open>
  What a waiting member can still do: one step for its response, and one for each
  strategy it has not used. The sum over the waiting members decreases with every step.
\<close>

definition weight :: "world \<Rightarrow> pending \<Rightarrow> nat" where
  "weight w m = Suc (length (strategies w) - pnext m)"

function settleAll ::
  "world \<Rightarrow> nat list \<Rightarrow> pending list \<Rightarrow> zipping \<Rightarrow> nat list \<times> zipping" where
  "settleAll w sched act s =
     (if act = [] then (sched, s)
      else (let n = pick sched act;
                others = take n act @ drop (Suc n) act
            in case resume w (act ! n) s of
                 (None, s') \<Rightarrow> settleAll w (tl sched) others s'
               | (Some m, s') \<Rightarrow> settleAll w (tl sched) (others @ [m]) s'))"
  by pat_completeness auto
termination
proof (relation "measure (\<lambda>(w, sched, act, s). sum_list (map (weight w) act))")
  show "wf (measure (\<lambda>(w, sched, act, s). sum_list (map (weight w) act)))" by simp
next
  fix w :: world and sched :: "nat list" and act :: "pending list" and s :: zipping
    and n others x s'
  assume ne: "act \<noteq> []" and n: "n = pick sched act"
    and o: "others = take n act @ drop (Suc n) act"
  have lt: "n < length act"
    using ne n by (simp add: pick_def split: list.splits)
  have "sum_list (map (weight w) act)
        = sum_list (map (weight w) (take n act @ act ! n # drop (Suc n) act))"
    using id_take_nth_drop[OF lt] by simp
  then have sum: "sum_list (map (weight w) act)
                  = sum_list (map (weight w) others) + weight w (act ! n)"
    using o by simp
  {
    assume "(x, s') = resume w (act ! n) s" and "x = None"
    show "((w, tl sched, others, s'), (w, sched, act, s))
          \<in> measure (\<lambda>(w, sched, act, s). sum_list (map (weight w) act))"
      using sum by (simp add: weight_def)
  }
  {
    fix m
    assume r: "(x, s') = resume w (act ! n) s" and x: "x = Some m"
    have "weight w m < weight w (act ! n)"
      using r x
      by (auto simp: resume_def issue_def weight_def Let_def split: option.splits if_splits)
    then show "((w, tl sched, others @ [m], s'), (w, sched, act, s))
          \<in> measure (\<lambda>(w, sched, act, s). sum_list (map (weight w) act))"
      using sum by simp
  }
qed

text \<open>
  The loop \<^verbatim>\<open>for (let i = 0; i < completedTasks.length; i += DOWNLOAD_BATCH)\<close>. A chunk is
  started only when the chunk before it is settled. A rejection is thrown into the outer
  \<^verbatim>\<open>catch\<close> and ends the loop; the archive is then not saved.
\<close>

definition DOWNLOAD_BATCH :: nat where
  "DOWNLOAD_BATCH = 3"

function zipLoop ::
  "world \<Rightarrow> nat list \<Rightarrow> VideoTask list \<Rightarrow> nat \<Rightarrow> zipping \<Rightarrow> zipping" where
  "zipLoop w sched completedTasks i s =
     (if i < length completedTasks then
        (case fold (startMember w) (take DOWNLOAD_BATCH (drop i completedTasks)) ([], s) of
           (act, s1) \<Rightarrow>
             (case settleAll w sched act s1 of
                (sched', s2) \<Rightarrow>
                  if rejected s2 then s2
                  else zipLoop w sched' completedTasks (i + DOWNLOAD_BATCH) s2))
      else s)"
  by pat_completeness auto
termination
  by (relation "measure (\<lambda>(w, sched, completedTasks, i, s). length completedTasks - i)")
     (auto simp: DOWNLOAD_BATCH_def)


definition completedTasks :: "VideoTask list \<Rightarrow> VideoTask list" where
  "completedTasks ts = filter (\<lambda>t. status t = COMPLETED \<and> truthyU (downloadUrl t)) ts"


section \<open>Notions used to state the properties\<close>

text \<open>The requests that the strategies \<open>fs\<close> issue for a target, in order.\<close>

definition requests :: "(string \<Rightarrow> string) list \<Rightarrow> string \<Rightarrow> fetchType \<Rightarrow> event list" where
  "requests fs targetUrl ty = map (\<lambda>f. Fetch (f targetUrl) (Some (timeoutFor ty))) fs"

text \<open>
  The truthy \<^verbatim>\<open>contents\<close> field of the envelope that the wrapped relay answered with, if the
  answer is ok, its body parses and it carries such a field.
\<close>

definition envelope :: "world \<Rightarrow> response \<Rightarrow> json option" where
  "envelope w r =
     (case r of
        Rejected \<Rightarrow> None
      | Response ok body \<Rightarrow>
          (case body of
             None \<Rightarrow> None
           | Some text \<Rightarrow>
               if \<not> ok then None
               else (case JSON_parse w text of
                       None \<Rightarrow> None
                     | Some wrapper \<Rightarrow>
                         (case getProp wrapper ''contents'' of
                            None \<Rightarrow> None
                          | Some contents \<Rightarrow> if truthy contents then Some contents else None))))"

text \<open>
  The outcome of a fetch is classified as rate-limited when the resolver retries on it
  while retries are left: either the \<^verbatim>\<open>try\<close> block schedules the retry itself, or it throws
  an error whose message is about the limit.
\<close>

definition rateLimited :: "error + payload \<Rightarrow> bool" where
  "rateLimited res =
     (case tryBlock res 0 of
        Returned d \<Rightarrow> False
      | Recurse ms \<Rightarrow> True
      | Thrown err \<Rightarrow> message err \<noteq> [] \<and> aboutLimit (message err))"

text \<open>The awaited delays of a log, in order.\<close>

fun delays :: "event list \<Rightarrow> nat list" where
  "delays [] = []"
| "delays (Sleep ms # es) = ms # delays es"
| "delays (Fetch u t # es) = delays es"

text \<open>
  What a run leaves of a task that it resolved, from the outcome of the resolution:
  the fields written when the task is marked as downloading and then as completed or
  as failed.
\<close>

definition settle :: "string \<Rightarrow> error + videoData \<Rightarrow> VideoTask \<Rightarrow> VideoTask" where
  "settle fallback r t =
     (case r of
        Inr d \<Rightarrow> t\<lparr>status := COMPLETED, progress := 100, errorMessage := None,
                     title := Some (data_title d), thumbnail := data_thumbnail d,
                     downloadUrl := data_downloadUrl d\<rparr>
      | Inl err \<Rightarrow> t\<lparr>status := ERROR, progress := 0,
                       errorMessage := Some (if message err \<noteq> [] then message err else fallback)\<rparr>)"

text \<open>
  The loop of \<^verbatim>\<open>processBatch\<close> by recursion over the tasks that are left: one task per group,
  a pause of 1300 ms when another group follows.
\<close>

definition runGroup :: "world \<Rightarrow> VideoTask \<Rightarrow> app \<Rightarrow> app" where
  "runGroup w c st = processTask w c (st\<lparr>tasks := markDownloading [c] (tasks st)\<rparr>)"

fun runGroups :: "world \<Rightarrow> VideoTask list \<Rightarrow> app \<Rightarrow> app" where
  "runGroups w [] st = st"
| "runGroups w [c] st = runGroup w c st"
| "runGroups w (c # c' # cs) st =
     runGroups w (c' # cs) ((runGroup w c st)\<lparr>events := events (runGroup w c st) @ [Sleep 1300]\<rparr>)"

text \<open>
  The states the handlers of \<^verbatim>\<open>App.tsx\<close> reach from the empty queue when they run one at a
  time, each to its end: adding links (with identifiers that are new), removing a task,
  clearing the completed tasks, "Start Download", "Retry Failed" and the retry button of
  a task. \<^verbatim>\<open>TaskItem.tsx\<close> renders the retry button only for a task whose status is ERROR:
  \<^verbatim>\<open>{task.status === TaskStatus.ERROR && (<button onClick={handleRetryClick} ...\<close>
\<close>

inductive reachable :: "world \<Rightarrow> app \<Rightarrow> bool" for w :: world where
  initial: "reachable w \<lparr>tasks = [], isProcessing = False, isZipping = False, events = []\<rparr>"
| enqueue: "reachable w st \<Longrightarrow> distinct (map fst links) \<Longrightarrow>
            set (map fst links) \<inter> set (map task_id (tasks st)) = {} \<Longrightarrow>
            reachable w (st\<lparr>tasks := addLinks links (tasks st)\<rparr>)"
| remove: "reachable w st \<Longrightarrow> reachable w (st\<lparr>tasks := removeTask i (tasks st)\<rparr>)"
| clear: "reachable w st \<Longrightarrow> reachable w (st\<lparr>tasks := clearCompleted (tasks st)\<rparr>)"
| start: "reachable w st \<Longrightarrow> reachable w (startDownload w st)"
| retryAll: "reachable w st \<Longrightarrow> reachable w (handleRetryAllErrors w st)"
| retry: "reachable w st \<Longrightarrow> t \<in> set (tasks st) \<Longrightarrow> status t = ERROR \<Longrightarrow>
          reachable w (handleSingleRetry w (task_id t) st)"

text \<open>
  The invariant of a task: it carries a download URL only if it is COMPLETED, and it
  carries a non-empty error message exactly if its status is ERROR.
\<close>

definition taskInv :: "VideoTask \<Rightarrow> bool" where
  "taskInv t \<longleftrightarrow>
     (downloadUrl t \<noteq> None \<longrightarrow> status t = COMPLETED)
     \<and> ((\<exists>m. errorMessage t = Some m \<and> m \<noteq> []) \<longleftrightarrow> status t = ERROR)"

definition good :: "VideoTask list \<Rightarrow> bool" where
  "good ts \<longleftrightarrow> distinct (map task_id ts) \<and> (\<forall>t \<in> set ts. taskInv t)"

text \<open>The logs of consecutive groups, with one event between each two of them.\<close>

fun joinWith :: "event \<Rightarrow> event list list \<Rightarrow> event list" where
  "joinWith e [] = []"
| "joinWith e [s] = s"
| "joinWith e (s # s' # ss) = s @ [e] @ joinWith e (s' # ss)"

text \<open>
  The first event of a resolution: the request of the first strategy for the resolution
  endpoint of the source.
\<close>

definition firstRequest :: "world \<Rightarrow> string \<Rightarrow> event" where
  "firstRequest w u = Fetch (hd (strategies w) (apiUrl w u)) (Some (timeoutFor TJson))"

text \<open>
  The log of the group of a task in a pass: it starts with the first request for the
  source of the task and holds no pause between groups.
\<close>

definition groupOf :: "world \<Rightarrow> VideoTask \<Rightarrow> event list \<Rightarrow> bool" where
  "groupOf w c seg \<longleftrightarrow> (\<exists>rest. seg = firstRequest w (url c) # rest \<and> Sleep 1300 \<notin> set rest)"

text \<open>The address that the archiver fetches for a task.\<close>

definition target :: "VideoTask \<Rightarrow> string" where
  "target t = toStringU (downloadUrl t)"






section \<open>Stubbed environments for the concrete runs\<close>

text \<open>
  A stub of \<^verbatim>\<open>JSON.parse\<close> that knows four bodies: a success envelope, a rate-limit answer
  with a string message, one whose message is an array, and the envelope of the wrapped
  relay around a page that is not JSON. \<open>encodeURIComponent\<close> is stubbed by the identity.
\<close>

definition stubParse :: "string \<Rightarrow> json option" where
  "stubParse s =
     (if s = ''ok'' then
        Some (JObj [(''code'', JNum 0),
                    (''data'', JObj [(''title'', JStr ''demo''), (''play'', JStr ''https://cdn.test/v.mp4'')])])
      else if s = ''limit'' then
        Some (JObj [(''code'', JNum (- 1)), (''msg'', JStr ''Free Api Limit: 1 request/second.'')])
      else if s = ''limits'' then
        Some (JObj [(''code'', JNum (- 1)), (''msg'', JArr [JStr ''Api Limit reached''])])
      else if s = ''wrapped'' then
        Some (JObj [(''contents'', JStr ''<html>'')])
      else None)"

definition stubWorld :: "(event list \<Rightarrow> string \<Rightarrow> nat option \<Rightarrow> response) \<Rightarrow> world" where
  "stubWorld n = \<lparr> encodeURIComponent = (\<lambda>u. u), JSON_parse = stubParse, net = n \<rparr>"

definition failedTask :: VideoTask where
  "failedTask = (newTask (''a'', ''https://x.test/@u/video/1''))
                  \<lparr>status := ERROR, errorMessage := Some ''Video not found''\<rparr>"

definition idle :: "VideoTask list \<Rightarrow> app" where
  "idle ts = \<lparr>tasks = ts, isProcessing = False, isZipping = False, events = []\<rparr>"

text \<open>A network in which only the third relay delivers the file.\<close>

definition thirdRelay :: "event list \<Rightarrow> string \<Rightarrow> nat option \<Rightarrow> response" where
  "thirdRelay lg u t =
     (if u = ''https://api.codetabs.com/v1/proxy?quest=https://cdn.test/v.mp4''
      then Response True (Some ''bytes'')
      else if u = ''https://corsproxy.io/?https://cdn.test/v.mp4'' then Response False (Some ''denied'')
      else Rejected)"

text \<open>A network in which only requests without deadline (the wrapped relay) are answered.\<close>

definition onlyWrapped :: "event list \<Rightarrow> string \<Rightarrow> nat option \<Rightarrow> response" where
  "onlyWrapped lg u t = (case t of None \<Rightarrow> Response True (Some ''wrapped'') | Some d \<Rightarrow> Rejected)"

text \<open>A network in which every request is answered with the success envelope.\<close>

definition alwaysOk :: "event list \<Rightarrow> string \<Rightarrow> nat option \<Rightarrow> response" where
  "alwaysOk lg u t = Response True (Some ''ok'')"

text \<open>A network that answers every request with the rate-limit message.\<close>

definition alwaysLimit :: "event list \<Rightarrow> string \<Rightarrow> nat option \<Rightarrow> response" where
  "alwaysLimit lg u t = Response True (Some ''limit'')"

text \<open>A network whose rate-limit answer carries its message in an array.\<close>

definition alwaysLimits :: "event list \<Rightarrow> string \<Rightarrow> nat option \<Rightarrow> response" where
  "alwaysLimits lg u t = Response True (Some ''limits'')"

text \<open>A network that answers the requests for two sources and rejects every other request.\<close>

definition oneBad :: "event list \<Rightarrow> string \<Rightarrow> nat option \<Rightarrow> response" where
  "oneBad lg u t =
     (if u = ''https://corsproxy.io/?https://www.tikwm.com/api/?url=good1''
         \<or> u = ''https://corsproxy.io/?https://www.tikwm.com/api/?url=good2''
      then Response True (Some ''ok'') else Rejected)"

text \<open>A queue of three new tasks, the second of which cannot be resolved.\<close>

definition queue3 :: "VideoTask list" where
  "queue3 = [newTask (''1'', ''good1''), newTask (''2'', ''bad''), newTask (''3'', ''good2'')]"

text \<open>A completed task with the given identifier, title and download URL.\<close>

definition doneTask :: "string \<Rightarrow> json option \<Rightarrow> string \<Rightarrow> VideoTask" where
  "doneTask i t u = (newTask (i, ''https://x.test/@u/video/'' @ i))
     \<lparr>status := COMPLETED, progress := 100, title := t, downloadUrl := Some (JStr u)\<rparr>"





text \<open>A queue of two completed tasks whose files the third relay delivers.\<close>

definition bothLive :: "VideoTask list" where
  "bothLive = [doneTask ''a'' (Some (JStr ''My Video!'')) ''https://cdn.test/v.mp4'',
               doneTask ''b'' None ''https://cdn.test/v.mp4'']"

text \<open>A queue with an idle, a failed and a completed task.\<close>

definition mixed3 :: "VideoTask list" where
  "mixed3 = [newTask (''1'', ''good1''),
             (newTask (''2'', ''bad''))\<lparr>status := ERROR, errorMessage := Some ''Video not found''\<rparr>,
             doneTask ''3'' (Some (JStr ''demo'')) ''https://cdn.test/v.mp4'']"

text \<open>
  A network that answers the requests for source \<^verbatim>\<open>A\<close>, and the first request for source
  \<^verbatim>\<open>B\<close> only.
\<close>

definition flaky :: "event list \<Rightarrow> string \<Rightarrow> nat option \<Rightarrow> response" where
  "flaky lg u t =
     (if u = ''https://corsproxy.io/?https://www.tikwm.com/api/?url=A'' then Response True (Some ''ok'')
      else if u = ''https://corsproxy.io/?https://www.tikwm.com/api/?url=B''
              \<and> Fetch u (Some 8000) \<notin> set lg
      then Response True (Some ''ok'')
      else Rejected)"

text \<open>
  A run in which the retry of a failed task overlaps a pass. The queue holds an idle
  task \<^verbatim>\<open>a\<close> and a failed task \<^verbatim>\<open>b\<close>; "Start Download" takes both into its snapshot, runs
  the group of \<^verbatim>\<open>a\<close> (the first iteration of the loop of \<^verbatim>\<open>processBatch\<close>) and starts its
  pause of 1300 ms. While the pass is suspended in the pause, the retry button of \<^verbatim>\<open>b\<close>
  (shown, since \<^verbatim>\<open>b\<close> is in ERROR) runs \<^verbatim>\<open>handleSingleRetry\<close>. After the pause the pass runs the
  group of \<^verbatim>\<open>b\<close> from its snapshot (the second iteration of the loop).
\<close>

definition taskA :: VideoTask where
  "taskA = newTask (''a'', ''A'')"

definition taskB :: VideoTask where
  "taskB = (newTask (''b'', ''B''))\<lparr>status := ERROR, errorMessage := Some ''Video not found''\<rparr>"

definition overlapStart :: app where
  "overlapStart = (idle [taskA, taskB])\<lparr>isProcessing := True\<rparr>"

definition overlapFirstGroup :: app where
  "overlapFirstGroup =
     processTask (stubWorld flaky) taskA
       (overlapStart\<lparr>tasks := markDownloading [taskA] (tasks overlapStart)\<rparr>)"

definition overlapPause :: app where
  "overlapPause = overlapFirstGroup\<lparr>events := events overlapFirstGroup @ [Sleep 1300]\<rparr>"

definition overlapRetry :: app where
  "overlapRetry = handleSingleRetry (stubWorld flaky) ''b'' overlapPause"

definition overlapSecondGroup :: app where
  "overlapSecondGroup =
     processTask (stubWorld flaky) taskB
       (overlapRetry\<lparr>tasks := markDownloading [taskB] (tasks overlapRetry)\<rparr>)"

section \<open>Properties of fetchWithProxies\<close>

text \<open>The recursive equations of the two loops are unfolded by hand.\<close>

declare resolveVideoData.simps [simp del]
declare batchLoop.simps [simp del]
declare settleAll.simps [simp del]
declare zipLoop.simps [simp del]

lemma tryStrategies_Cons:
  "tryStrategies w (f # fs) t ty lg =
     (case attempt w ty lg (f t) of
        Some p \<Rightarrow> (Some p, lg @ [Fetch (f t) (Some (timeoutFor ty))])
      | None \<Rightarrow> tryStrategies w fs t ty (lg @ [Fetch (f t) (Some (timeoutFor ty))]))"
  by (auto simp: attempt_def Let_def split: response.splits option.splits fetchType.splits)

declare tryStrategies.simps(2) [simp del]

lemma tryStrategies_order:
  "\<exists>k. k \<le> length fs \<and> snd (tryStrategies w fs t ty lg) = lg @ requests (take k fs) t ty
     \<and> (\<forall>j<k - 1. attempt w ty (lg @ requests (take j fs) t ty) ((fs ! j) t) = None)
     \<and> (case fst (tryStrategies w fs t ty lg) of
          Some p \<Rightarrow> 0 < k \<and> attempt w ty (lg @ requests (take (k - 1) fs) t ty) ((fs ! (k - 1)) t) = Some p
        | None \<Rightarrow> k = length fs
             \<and> (\<forall>j<k. attempt w ty (lg @ requests (take j fs) t ty) ((fs ! j) t) = None))"
proof (induction fs arbitrary: lg)
  case Nil
  show ?case by (simp add: requests_def)
next
  case (Cons f fs)
  let ?e = "Fetch (f t) (Some (timeoutFor ty))"
  show ?case
  proof (cases "attempt w ty lg (f t)")
    case (Some p)
    then show ?thesis
      by (intro exI[of _ 1]) (simp add: tryStrategies_Cons requests_def)
  next
    case None
    from Cons.IH[of "lg @ [?e]"] obtain k where k:
      "k \<le> length fs"
      "snd (tryStrategies w fs t ty (lg @ [?e])) = (lg @ [?e]) @ requests (take k fs) t ty"
      "\<forall>j<k - 1. attempt w ty ((lg @ [?e]) @ requests (take j fs) t ty) ((fs ! j) t) = None"
      "case fst (tryStrategies w fs t ty (lg @ [?e])) of
          Some p \<Rightarrow> 0 < k \<and> attempt w ty ((lg @ [?e]) @ requests (take (k - 1) fs) t ty) ((fs ! (k - 1)) t) = Some p
        | None \<Rightarrow> k = length fs
             \<and> (\<forall>j<k. attempt w ty ((lg @ [?e]) @ requests (take j fs) t ty) ((fs ! j) t) = None)"
      by blast
    have shift: "\<And>j. lg @ requests (take (Suc j) (f # fs)) t ty = (lg @ [?e]) @ requests (take j fs) t ty"
      by (simp add: requests_def)
    have pre: "\<forall>j<Suc k - 1. attempt w ty (lg @ requests (take j (f # fs)) t ty) (((f # fs) ! j) t) = None"
    proof (intro allI impI)
      fix j assume "j < Suc k - 1"
      then show "attempt w ty (lg @ requests (take j (f # fs)) t ty) (((f # fs) ! j) t) = None"
        using None k(3) by (cases j) (auto simp: requests_def)
    qed
    show ?thesis
    proof (intro exI[of _ "Suc k"] conjI)
      show "Suc k \<le> length (f # fs)" using k(1) by simp
      show "snd (tryStrategies w (f # fs) t ty lg) = lg @ requests (take (Suc k) (f # fs)) t ty"
        using None k(2) by (simp add: tryStrategies_Cons requests_def)
      show "\<forall>j<Suc k - 1. attempt w ty (lg @ requests (take j (f # fs)) t ty) (((f # fs) ! j) t) = None"
        by (rule pre)
      show "case fst (tryStrategies w (f # fs) t ty lg) of
          Some p \<Rightarrow> 0 < Suc k \<and> attempt w ty (lg @ requests (take (Suc k - 1) (f # fs)) t ty) (((f # fs) ! (Suc k - 1)) t) = Some p
        | None \<Rightarrow> Suc k = length (f # fs)
             \<and> (\<forall>j<Suc k. attempt w ty (lg @ requests (take j (f # fs)) t ty) (((f # fs) ! j) t) = None)"
      proof (cases "fst (tryStrategies w fs t ty (lg @ [?e]))")
        case N: None
        have "\<forall>j<Suc k. attempt w ty (lg @ requests (take j (f # fs)) t ty) (((f # fs) ! j) t) = None"
        proof (intro allI impI)
          fix j assume "j < Suc k"
          then show "attempt w ty (lg @ requests (take j (f # fs)) t ty) (((f # fs) ! j) t) = None"
            using None k(4) N by (cases j) (auto simp: requests_def)
        qed
        then show ?thesis using None N k(4) by (simp add: tryStrategies_Cons)
      next
        case S: (Some p)
        then have "0 < k" and a: "attempt w ty ((lg @ [?e]) @ requests (take (k - 1) fs) t ty) ((fs ! (k - 1)) t) = Some p"
          using k(4) by auto
        then obtain k' where k': "k = Suc k'" by (cases k) auto
        show ?thesis using None S a k' by (simp add: tryStrategies_Cons requests_def)
      qed
    qed
  qed
qed

lemma strategies_length: "length (strategies w) = 4"
  by (simp add: strategies_def)

lemma strategies_last: "last (strategies w) targetUrl = targetUrl"
  by (simp add: strategies_def)

lemma fetchWithProxies_error:
  "fst (fetchWithProxies w t ty lg) = Inl e \<Longrightarrow> e = allProxiesFailed"
  by (auto simp: fetchWithProxies_def split: prod.splits option.splits if_splits)

lemma fetchWithProxies_first:
  "fst (tryStrategies w (strategies w) t ty lg) = Some p \<Longrightarrow>
   fetchWithProxies w t ty lg = (Inr p, snd (tryStrategies w (strategies w) t ty lg))"
  by (auto simp: fetchWithProxies_def split: prod.splits option.splits)

text \<open>
  Claim C5. The strategy list has four entries and its last entry leaves the URL as it
  is. The loop issues the requests of the first \<open>k\<close> strategies, in order and each with
  the deadline of 8000 ms for \<^verbatim>\<open>'json'\<close> and 15000 ms for \<^verbatim>\<open>'blob'\<close>, and nothing else:
  the attempts before the \<open>k\<close>-th failed, the \<open>k\<close>-th attempt gives the result of the loop,
  and the loop gives up only after all four. When an attempt succeeds,
  \<^verbatim>\<open>fetchWithProxies\<close> returns its payload without any further request. The only error
  that leaves \<^verbatim>\<open>fetchWithProxies\<close> is the final "All proxies failed" error.
\<close>

theorem fetch_ordered_transforms:
  "length (strategies w) = 4 \<and> last (strategies w) targetUrl = targetUrl
   \<and> timeoutFor TJson = 8000 \<and> timeoutFor TBlob = 15000
   \<and> (\<exists>k. 1 \<le> k \<and> k \<le> 4
          \<and> snd (tryStrategies w (strategies w) targetUrl ty lg)
              = lg @ requests (take k (strategies w)) targetUrl ty
          \<and> (\<forall>j<k - 1. attempt w ty (lg @ requests (take j (strategies w)) targetUrl ty)
                           ((strategies w ! j) targetUrl) = None)
          \<and> attempt w ty (lg @ requests (take (k - 1) (strategies w)) targetUrl ty)
                       ((strategies w ! (k - 1)) targetUrl)
              = fst (tryStrategies w (strategies w) targetUrl ty lg)
          \<and> (fst (tryStrategies w (strategies w) targetUrl ty lg) = None \<longrightarrow> k = 4))
   \<and> (\<forall>p. fst (tryStrategies w (strategies w) targetUrl ty lg) = Some p \<longrightarrow>
          fetchWithProxies w targetUrl ty lg
            = (Inr p, snd (tryStrategies w (strategies w) targetUrl ty lg)))
   \<and> (\<forall>e. fst (fetchWithProxies w targetUrl ty lg) = Inl e \<longrightarrow> e = allProxiesFailed)"
proof -
  let ?fs = "strategies w"
  let ?R = "tryStrategies w ?fs targetUrl ty lg"
  from tryStrategies_order[of ?fs w targetUrl ty lg] obtain k where k:
    "k \<le> length ?fs"
    "snd ?R = lg @ requests (take k ?fs) targetUrl ty"
    "\<forall>j<k - 1. attempt w ty (lg @ requests (take j ?fs) targetUrl ty) ((?fs ! j) targetUrl) = None"
    "case fst ?R of
       Some p \<Rightarrow> 0 < k \<and> attempt w ty (lg @ requests (take (k - 1) ?fs) targetUrl ty)
                             ((?fs ! (k - 1)) targetUrl) = Some p
     | None \<Rightarrow> k = length ?fs
          \<and> (\<forall>j<k. attempt w ty (lg @ requests (take j ?fs) targetUrl ty) ((?fs ! j) targetUrl) = None)"
    by blast
  have len: "length ?fs = 4" by (rule strategies_length)
  have k1: "1 \<le> k" using k(4) len by (cases "fst ?R") auto
  have last_att: "attempt w ty (lg @ requests (take (k - 1) ?fs) targetUrl ty)
                    ((?fs ! (k - 1)) targetUrl) = fst ?R"
  proof (cases "fst ?R")
    case None
    with k(4) have "k = length ?fs"
      and all: "\<forall>j<k. attempt w ty (lg @ requests (take j ?fs) targetUrl ty) ((?fs ! j) targetUrl) = None"
      by auto
    from all k1 have "attempt w ty (lg @ requests (take (k - 1) ?fs) targetUrl ty)
                    ((?fs ! (k - 1)) targetUrl) = None" by simp
    with None show ?thesis by simp
  next
    case (Some p)
    with k(4) show ?thesis by simp
  qed
  have k4: "fst ?R = None \<longrightarrow> k = 4" using k(4) len by auto
  have ex: "\<exists>k. 1 \<le> k \<and> k \<le> 4
          \<and> snd ?R = lg @ requests (take k ?fs) targetUrl ty
          \<and> (\<forall>j<k - 1. attempt w ty (lg @ requests (take j ?fs) targetUrl ty)
                           ((?fs ! j) targetUrl) = None)
          \<and> attempt w ty (lg @ requests (take (k - 1) ?fs) targetUrl ty)
                       ((?fs ! (k - 1)) targetUrl) = fst ?R
          \<and> (fst ?R = None \<longrightarrow> k = 4)"
    using k1 k(1) len k(2) k(3) last_att k4 by (intro exI[of _ k]) simp
  show ?thesis
    using len strategies_last[of w targetUrl] ex fetchWithProxies_first[of w targetUrl ty lg]
      fetchWithProxies_error[of w targetUrl ty lg]
    by (simp add: timeoutFor_def)
qed

theorem fetch_ordered_transforms_witness:
  "fetchWithProxies (stubWorld thirdRelay) ''https://cdn.test/v.mp4'' TBlob []
     = (Inr (PBlob ''bytes''),
        [Fetch ''https://corsproxy.io/?https://cdn.test/v.mp4'' (Some 15000),
         Fetch ''https://api.allorigins.win/raw?url=https://cdn.test/v.mp4'' (Some 15000),
         Fetch ''https://api.codetabs.com/v1/proxy?quest=https://cdn.test/v.mp4'' (Some 15000)])"
proof -
  have R: "tryStrategies (stubWorld thirdRelay) (strategies (stubWorld thirdRelay))
             ''https://cdn.test/v.mp4'' TBlob []
           = (Some (PBlob ''bytes''),
        [Fetch ''https://corsproxy.io/?https://cdn.test/v.mp4'' (Some 15000),
         Fetch ''https://api.allorigins.win/raw?url=https://cdn.test/v.mp4'' (Some 15000),
         Fetch ''https://api.codetabs.com/v1/proxy?quest=https://cdn.test/v.mp4'' (Some 15000)])"
    by (simp add: strategies_def tryStrategies_Cons attempt_def stubWorld_def thirdRelay_def
        timeoutFor_def)
  show ?thesis
    using fetch_ordered_transforms[of "stubWorld thirdRelay" "''https://cdn.test/v.mp4''" TBlob "[]"]
    by (simp add: R)
qed

section \<open>The wrapped relay\<close>

lemma wrappedFallback_envelope:
  "wrappedFallback w t lg =
     ((case envelope w (net w lg (wrappedUrl w t) None) of
         Some contents \<Rightarrow>
           Some (case JSON_parse w (toString contents) of Some v \<Rightarrow> v | None \<Rightarrow> contents)
       | None \<Rightarrow> None),
      lg @ [Fetch (wrappedUrl w t) None])"
  by (cases "net w lg (wrappedUrl w t) None")
     (auto simp: wrappedFallback_def envelope_def Let_def
           split: option.splits json.splits)

text \<open>
  Claim C4, as amended. When every ordered transform of a \<^verbatim>\<open>'json'\<close> fetch has failed,
  exactly one more request is issued, to the wrapped relay and without deadline. If the
  answer is an envelope with a truthy \<^verbatim>\<open>contents\<close> field, the fetch succeeds: with the
  parsed contents when they parse, and with the contents as they are when they do not.
  Otherwise the fetch fails with the "All proxies failed" error.
\<close>

theorem wrapped_fallback:
  assumes "fst (tryStrategies w (strategies w) t TJson lg) = None"
  shows "snd (fetchWithProxies w t TJson lg)
           = snd (tryStrategies w (strategies w) t TJson lg) @ [Fetch (wrappedUrl w t) None]
         \<and> fst (fetchWithProxies w t TJson lg)
           = (case envelope w (net w (snd (tryStrategies w (strategies w) t TJson lg))
                                 (wrappedUrl w t) None) of
                Some contents \<Rightarrow>
                  Inr (PJson (case JSON_parse w (toString contents) of
                                Some v \<Rightarrow> v | None \<Rightarrow> contents))
              | None \<Rightarrow> Inl allProxiesFailed)"
proof -
  obtain lg1 where R: "tryStrategies w (strategies w) t TJson lg = (None, lg1)"
    using assms by (cases "tryStrategies w (strategies w) t TJson lg") auto
  show ?thesis
    by (simp add: fetchWithProxies_def R wrappedFallback_envelope split: option.splits)
qed

lemma onlyWrapped_loop:
  "tryStrategies (stubWorld onlyWrapped) (strategies (stubWorld onlyWrapped)) ''x'' TJson []
   = (None, [Fetch ''https://corsproxy.io/?x'' (Some 8000),
             Fetch ''https://api.allorigins.win/raw?url=x'' (Some 8000),
             Fetch ''https://api.codetabs.com/v1/proxy?quest=x'' (Some 8000),
             Fetch ''x'' (Some 8000)])"
  by (simp add: strategies_def tryStrategies_Cons attempt_def stubWorld_def onlyWrapped_def
        timeoutFor_def)

theorem wrapped_fallback_witness:
  "fst (tryStrategies (stubWorld onlyWrapped) (strategies (stubWorld onlyWrapped)) ''x'' TJson [])
     = None
   \<and> fetchWithProxies (stubWorld onlyWrapped) ''x'' TJson []
     = (Inr (PJson (JStr ''<html>'')),
        [Fetch ''https://corsproxy.io/?x'' (Some 8000),
         Fetch ''https://api.allorigins.win/raw?url=x'' (Some 8000),
         Fetch ''https://api.codetabs.com/v1/proxy?quest=x'' (Some 8000),
         Fetch ''x'' (Some 8000),
         Fetch ''https://api.allorigins.win/get?url=x'' None])"
proof -
  have h: "fst (tryStrategies (stubWorld onlyWrapped) (strategies (stubWorld onlyWrapped))
             ''x'' TJson []) = None"
    by (simp add: onlyWrapped_loop)
  have e: "envelope (stubWorld onlyWrapped) (Response True (Some ''wrapped'')) = Some (JStr ''<html>'')"
    by (simp add: envelope_def stubWorld_def stubParse_def)
  have n: "net (stubWorld onlyWrapped) lg u None = Response True (Some ''wrapped'')" for lg u
    by (simp add: stubWorld_def onlyWrapped_def)
  have p: "JSON_parse (stubWorld onlyWrapped) ''<html>'' = None"
    by (simp add: stubWorld_def stubParse_def)
  have u: "wrappedUrl (stubWorld onlyWrapped) ''x'' = ''https://api.allorigins.win/get?url=x''"
    by (simp add: wrappedUrl_def stubWorld_def)
  from wrapped_fallback[OF h]
  have "snd (fetchWithProxies (stubWorld onlyWrapped) ''x'' TJson [])
          = [Fetch ''https://corsproxy.io/?x'' (Some 8000),
         Fetch ''https://api.allorigins.win/raw?url=x'' (Some 8000),
         Fetch ''https://api.codetabs.com/v1/proxy?quest=x'' (Some 8000),
         Fetch ''x'' (Some 8000),
         Fetch ''https://api.allorigins.win/get?url=x'' None]"
    and "fst (fetchWithProxies (stubWorld onlyWrapped) ''x'' TJson []) = Inr (PJson (JStr ''<html>''))"
    by (simp_all add: onlyWrapped_loop n e p u)
  then show ?thesis using h by (simp add: prod_eq_iff)
qed

text \<open>
  The claim as stated fails: all four transforms are rejected, the wrapped relay answers
  with an envelope around a page that \<^verbatim>\<open>JSON.parse\<close> rejects, and the fetch returns that
  page undecoded instead of failing.
\<close>

theorem wrapped_fallback_counterexample:
  "JSON_parse (stubWorld onlyWrapped) ''<html>'' = None
   \<and> fst (fetchWithProxies (stubWorld onlyWrapped) ''x'' TJson []) = Inr (PJson (JStr ''<html>''))"
proof -
  have e: "envelope (stubWorld onlyWrapped) (Response True (Some ''wrapped'')) = Some (JStr ''<html>'')"
    by (simp add: envelope_def stubWorld_def stubParse_def)
  have n: "net (stubWorld onlyWrapped) lg u None = Response True (Some ''wrapped'')" for lg u
    by (simp add: stubWorld_def onlyWrapped_def)
  have p: "JSON_parse (stubWorld onlyWrapped) ''<html>'' = None"
    by (simp add: stubWorld_def stubParse_def)
  show ?thesis
    by (simp add: fetchWithProxies_def onlyWrapped_loop wrappedFallback_envelope n e p)
qed

section \<open>Clearing completed tasks\<close>

text \<open>
  Claim C10. "Clear completed" removes exactly the tasks whose status is COMPLETED: the
  result is a subsequence of the list (the tasks that stay keep their fields and their
  relative order), no task of the result is COMPLETED, and every task with another
  status occurs in the result as often as it did before.
\<close>

theorem clearCompleted_frame:
  "subseq (clearCompleted ts) ts
   \<and> (\<forall>t. count_list (clearCompleted ts) t
            = (if status t = COMPLETED then 0 else count_list ts t))"
proof
  show "subseq (clearCompleted ts) ts"
    by (simp add: clearCompleted_def)
  show "\<forall>t. count_list (clearCompleted ts) t
            = (if status t = COMPLETED then 0 else count_list ts t)"
    by (induction ts) (auto simp: clearCompleted_def)
qed

theorem clearCompleted_frame_witness:
  "clearCompleted
     [newTask (''a'', ''u1'')\<lparr>status := COMPLETED\<rparr>, newTask (''b'', ''u2''),
      newTask (''c'', ''u3'')\<lparr>status := ERROR\<rparr>]
   = [newTask (''b'', ''u2''), newTask (''c'', ''u3'')\<lparr>status := ERROR\<rparr>]
   \<and> subseq (clearCompleted
        [newTask (''a'', ''u1'')\<lparr>status := COMPLETED\<rparr>, newTask (''b'', ''u2''),
         newTask (''c'', ''u3'')\<lparr>status := ERROR\<rparr>])
        [newTask (''a'', ''u1'')\<lparr>status := COMPLETED\<rparr>, newTask (''b'', ''u2''),
         newTask (''c'', ''u3'')\<lparr>status := ERROR\<rparr>]"
  using clearCompleted_frame
    [of "[newTask (''a'', ''u1'')\<lparr>status := COMPLETED\<rparr>, newTask (''b'', ''u2''),
          newTask (''c'', ''u3'')\<lparr>status := ERROR\<rparr>]"]
  by (simp add: clearCompleted_def newTask_def)

section \<open>Rate limits and retries\<close>

lemma resolve_alwaysOk:
  "resolveVideoData (stubWorld alwaysOk) u 0 lg
   = (Inr \<lparr>data_title = JStr ''demo'', data_thumbnail = None,
            data_downloadUrl = Some (JStr ''https://cdn.test/v.mp4''), data_size = None\<rparr>,
      lg @ [Fetch (''https://corsproxy.io/?https://www.tikwm.com/api/?url='' @ u) (Some 8000)])"
  by (simp add: resolveVideoData.simps[of _ _ 0] stubWorld_def stubParse_def alwaysOk_def
      fetchWithProxies_def strategies_def
      tryStrategies_Cons attempt_def tryBlock_def apiUrl_def timeoutFor_def extractData_def)

lemma delays_append: "delays (xs @ ys) = delays xs @ delays ys"
  by (induction xs rule: delays.induct) auto

lemma delays_requests: "delays (requests fs t ty) = []"
  by (induction fs) (auto simp: requests_def)

lemma fetchWithProxies_log:
  "\<exists>new. snd (fetchWithProxies w t ty lg) = lg @ new \<and> delays new = []"
proof -
  obtain k where k: "snd (tryStrategies w (strategies w) t ty lg) = lg @ requests (take k (strategies w)) t ty"
    using tryStrategies_order[of "strategies w" w t ty lg] by blast
  show ?thesis
  proof (cases "fst (tryStrategies w (strategies w) t ty lg)")
    case (Some p)
    then show ?thesis using k fetchWithProxies_first[of w t ty lg p] by (simp add: delays_requests)
  next
    case None
    then obtain lg1 where R: "tryStrategies w (strategies w) t ty lg = (None, lg1)"
      by (cases "tryStrategies w (strategies w) t ty lg") auto
    with k have lg1: "lg1 = lg @ requests (take k (strategies w)) t ty" by simp
    show ?thesis
    proof (cases ty)
      case TJson
      then show ?thesis
        using R lg1
        by (auto simp: fetchWithProxies_def wrappedFallback_envelope delays_append delays_requests
            split: option.splits)
    next
      case TBlob
      then show ?thesis using R lg1 by (simp add: fetchWithProxies_def delays_requests)
    qed
  qed
qed

lemma not_aboutLimit_failed: "\<not> aboutLimit ''All proxies failed to fetch data.''"
  by code_simp

lemma not_aboutLimit_notFound: "\<not> aboutLimit ''Video not found''"
  by code_simp

lemma rateLimited_payload:
  assumes "rateLimited res" and "\<And>e. res = Inl e \<Longrightarrow> e = allProxiesFailed"
  shows "\<exists>data. res = Inr (PJson data)
           \<and> tryBlock res 3 = Thrown (Error (toStringU (getProp data ''msg'')))
           \<and> toStringU (getProp data ''msg'') \<noteq> []
           \<and> aboutLimit (toStringU (getProp data ''msg''))"
proof (cases res)
  case (Inl e)
  with assms(2)[of e] have "e = allProxiesFailed" by simp
  with Inl assms(1) show ?thesis
    by (simp add: rateLimited_def tryBlock_def allProxiesFailed_def not_aboutLimit_failed)
next
  case (Inr p)
  show ?thesis
  proof (cases p)
    case (PBlob b)
    with Inr assms show ?thesis
      by (simp add: rateLimited_def tryBlock_def not_aboutLimit_notFound)
  next
    case (PJson data)
    have nf: "tryBlock res 0 = notFound data 0 \<and> tryBlock res 3 = notFound data 3"
      using assms(1) Inr PJson
      by (auto simp: rateLimited_def tryBlock_def split: option.splits if_splits)
    have t: "truthyU (getProp data ''msg'')"
      using assms(1) nf
      by (auto simp: rateLimited_def notFound_def Let_def not_aboutLimit_notFound truthyU_def
          split: option.splits json.splits if_splits)
    have a: "toStringU (getProp data ''msg'') \<noteq> [] \<and> aboutLimit (toStringU (getProp data ''msg''))"
      using assms(1) nf t
      by (auto simp: rateLimited_def notFound_def Let_def truthyU_def toStringU_def
          split: option.splits json.splits if_splits)
    show ?thesis using Inr PJson nf t a by (simp add: notFound_def Let_def)
  qed
qed

lemma rateLimited_step:
  assumes "rateLimited (fst (fetchWithProxies w (apiUrl w u) TJson lg))" and "retryCount < 3"
  shows "\<exists>d. resolveVideoData w u retryCount lg
             = resolveVideoData w u (Suc retryCount)
                 (snd (fetchWithProxies w (apiUrl w u) TJson lg) @ [Sleep d])"
proof -
  obtain res lg1 where F: "fetchWithProxies w (apiUrl w u) TJson lg = (res, lg1)"
    by (cases "fetchWithProxies w (apiUrl w u) TJson lg")
  have e: "res = Inl e \<Longrightarrow> e = allProxiesFailed" for e
    using fetchWithProxies_error[of w "apiUrl w u" TJson lg e] F by simp
  from assms(1) F have rl: "rateLimited res" by simp
  from rateLimited_payload[OF rl e] obtain data where d: "res = Inr (PJson data)"
    "toStringU (getProp data ''msg'') \<noteq> []" "aboutLimit (toStringU (getProp data ''msg''))"
    by blast
  have nf: "tryBlock res retryCount = notFound data retryCount"
    using rl d(1) by (auto simp: rateLimited_def tryBlock_def split: option.splits if_splits)
  show ?thesis
  proof (cases "notFound data retryCount")
    case (Returned x)
    then show ?thesis by (simp add: notFound_def Let_def split: if_splits)
  next
    case (Recurse ms)
    have "resolveVideoData w u retryCount lg
             = resolveVideoData w u (Suc retryCount)
                 (snd (fetchWithProxies w (apiUrl w u) TJson lg) @ [Sleep ms])"
      using F nf Recurse by (subst resolveVideoData.simps) simp
    then show ?thesis by blast
  next
    case (Thrown err)
    have t: "truthyU (getProp data ''msg'')"
      using d(2,3) rl nf Thrown assms(2) d(1)
      by (auto simp: rateLimited_def tryBlock_def notFound_def Let_def not_aboutLimit_notFound truthyU_def
           toStringU_def split: option.splits json.splits if_splits)
    then have "message err = toStringU (getProp data ''msg'')"
      using Thrown by (auto simp: notFound_def Let_def split: if_splits)
    then have "resolveVideoData w u retryCount lg
             = resolveVideoData w u (Suc retryCount)
                 (snd (fetchWithProxies w (apiUrl w u) TJson lg) @ [Sleep 2000])"
      using F nf Thrown d(2,3) assms(2) by (subst resolveVideoData.simps) simp
    then show ?thesis by blast
  qed
qed

lemma rateLimited_last:
  assumes "rateLimited (fst (fetchWithProxies w (apiUrl w u) TJson lg))"
  shows "\<exists>data l4. fetchWithProxies w (apiUrl w u) TJson lg = (Inr (PJson data), l4)
           \<and> resolveVideoData w u 3 lg = (Inl (Error (toStringU (getProp data ''msg''))), l4)
           \<and> toStringU (getProp data ''msg'') \<noteq> []
           \<and> aboutLimit (toStringU (getProp data ''msg''))"
proof -
  obtain res lg1 where F: "fetchWithProxies w (apiUrl w u) TJson lg = (res, lg1)"
    by (cases "fetchWithProxies w (apiUrl w u) TJson lg")
  have e: "res = Inl e \<Longrightarrow> e = allProxiesFailed" for e
    using fetchWithProxies_error[of w "apiUrl w u" TJson lg e] F by simp
  from assms(1) F have rl: "rateLimited res" by simp
  from rateLimited_payload[OF rl e] obtain data where d: "res = Inr (PJson data)"
    "tryBlock res 3 = Thrown (Error (toStringU (getProp data ''msg'')))"
    "toStringU (getProp data ''msg'') \<noteq> []" "aboutLimit (toStringU (getProp data ''msg''))"
    by blast
  show ?thesis using F d by (subst resolveVideoData.simps) simp
qed

text \<open>
  Claim C1. When every fetch of the resolution endpoint for a source is classified as
  rate-limited, the resolver fetches exactly four times, with one delay before each of
  the three retries and no other delay, and then fails: the fourth payload's message
  (which is not empty and mentions the limit) is the reason of the error, and nothing
  happens after the fourth fetch.
\<close>

theorem resolve_retry_bound:
  assumes "\<forall>lg. rateLimited (fst (fetchWithProxies w (apiUrl w u) TJson lg))"
  shows "\<exists>l1 d1 l2 d2 l3 d3 data l4.
           snd (fetchWithProxies w (apiUrl w u) TJson lg) = l1
         \<and> snd (fetchWithProxies w (apiUrl w u) TJson (l1 @ [Sleep d1])) = l2
         \<and> snd (fetchWithProxies w (apiUrl w u) TJson (l2 @ [Sleep d2])) = l3
         \<and> fetchWithProxies w (apiUrl w u) TJson (l3 @ [Sleep d3]) = (Inr (PJson data), l4)
         \<and> resolveVideoData w u 0 lg = (Inl (Error (toStringU (getProp data ''msg''))), l4)
         \<and> toStringU (getProp data ''msg'') \<noteq> []
         \<and> aboutLimit (toStringU (getProp data ''msg''))
         \<and> delays (drop (length lg) l4) = [d1, d2, d3]"
proof -
  let ?F = "\<lambda>lg. fetchWithProxies w (apiUrl w u) TJson lg"
  define l1 where "l1 = snd (?F lg)"
  from rateLimited_step[of w u lg 0] assms obtain d1 where
    s1: "resolveVideoData w u 0 lg = resolveVideoData w u (Suc 0) (l1 @ [Sleep d1])"
    unfolding l1_def by auto
  define l2 where "l2 = snd (?F (l1 @ [Sleep d1]))"
  from rateLimited_step[of w u "l1 @ [Sleep d1]" "Suc 0"] assms obtain d2 where
    s2: "resolveVideoData w u (Suc 0) (l1 @ [Sleep d1])
         = resolveVideoData w u (Suc (Suc 0)) (l2 @ [Sleep d2])"
    unfolding l2_def by auto
  define l3 where "l3 = snd (?F (l2 @ [Sleep d2]))"
  from rateLimited_step[of w u "l2 @ [Sleep d2]" "Suc (Suc 0)"] assms obtain d3 where
    s3: "resolveVideoData w u (Suc (Suc 0)) (l2 @ [Sleep d2])
         = resolveVideoData w u (Suc (Suc (Suc 0))) (l3 @ [Sleep d3])"
    unfolding l3_def by auto
  from rateLimited_last[of w u "l3 @ [Sleep d3]"] assms obtain data l4 where
    s4: "?F (l3 @ [Sleep d3]) = (Inr (PJson data), l4)"
        "resolveVideoData w u 3 (l3 @ [Sleep d3]) = (Inl (Error (toStringU (getProp data ''msg''))), l4)"
        "toStringU (getProp data ''msg'') \<noteq> []" "aboutLimit (toStringU (getProp data ''msg''))"
    by blast
  obtain n1 where n1: "l1 = lg @ n1" "delays n1 = []"
    using fetchWithProxies_log[of w "apiUrl w u" TJson lg] by (auto simp: l1_def)
  obtain n2 where n2: "l2 = (l1 @ [Sleep d1]) @ n2" "delays n2 = []"
    using fetchWithProxies_log[of w "apiUrl w u" TJson "l1 @ [Sleep d1]"] by (auto simp: l2_def)
  obtain n3 where n3: "l3 = (l2 @ [Sleep d2]) @ n3" "delays n3 = []"
    using fetchWithProxies_log[of w "apiUrl w u" TJson "l2 @ [Sleep d2]"] by (auto simp: l3_def)
  obtain n4 where n4: "l4 = (l3 @ [Sleep d3]) @ n4" "delays n4 = []"
    using fetchWithProxies_log[of w "apiUrl w u" TJson "l3 @ [Sleep d3]"] s4(1) by auto
  have dl: "delays (drop (length lg) l4) = [d1, d2, d3]"
    using n1 n2 n3 n4 by (simp add: delays_append)
  have r: "resolveVideoData w u 0 lg = (Inl (Error (toStringU (getProp data ''msg''))), l4)"
    using s1 s2 s3 s4(2) by (simp add: numeral_3_eq_3)
  show ?thesis
    using r s4(1,3,4) dl l1_def l2_def l3_def
    by (intro exI[of _ l1] exI[of _ d1] exI[of _ l2] exI[of _ d2] exI[of _ l3] exI[of _ d3]
          exI[of _ data] exI[of _ l4]) simp
qed

lemma aboutLimit_stub: "aboutLimit ''Free Api Limit: 1 request/second.''"
  by code_simp

lemma aboutLimit_stubs: "aboutLimit ''Api Limit reached''"
  by code_simp

lemma tryBlock_stub:
  "tryBlock (Inr (PJson (JObj [(''code'', JNum (- 1)),
                                (''msg'', JStr ''Free Api Limit: 1 request/second.'')]))) retryCount
   = (if retryCount < 3 then Recurse (2000 + retryCount * 1000)
      else Thrown (Error ''Free Api Limit: 1 request/second.''))"
  by (simp add: tryBlock_def notFound_def aboutLimit_stub truthyU_def toStringU_def)

lemma tryBlock_stubs:
  "tryBlock (Inr (PJson (JObj [(''code'', JNum (- 1)),
                                (''msg'', JArr [JStr ''Api Limit reached''])]))) retryCount
   = Thrown (Error ''Api Limit reached'')"
  by (simp add: tryBlock_def notFound_def truthyU_def toStringU_def)

lemma fetch_alwaysLimit:
  "fetchWithProxies (stubWorld alwaysLimit) t TJson lg
   = (Inr (PJson (JObj [(''code'', JNum (- 1)),
                        (''msg'', JStr ''Free Api Limit: 1 request/second.'')])),
      lg @ [Fetch (''https://corsproxy.io/?'' @ t) (Some 8000)])"
  by (simp add: fetchWithProxies_def strategies_def tryStrategies_Cons attempt_def stubWorld_def
      stubParse_def alwaysLimit_def timeoutFor_def)

lemma fetch_alwaysLimits:
  "fetchWithProxies (stubWorld alwaysLimits) t TJson lg
   = (Inr (PJson (JObj [(''code'', JNum (- 1)),
                        (''msg'', JArr [JStr ''Api Limit reached''])])),
      lg @ [Fetch (''https://corsproxy.io/?'' @ t) (Some 8000)])"
  by (simp add: fetchWithProxies_def strategies_def tryStrategies_Cons attempt_def stubWorld_def
      stubParse_def alwaysLimits_def timeoutFor_def)

lemma apiUrl_stub: "apiUrl (stubWorld n) u = ''https://www.tikwm.com/api/?url='' @ u"
  by (simp add: apiUrl_def stubWorld_def)

theorem resolve_retry_bound_witness:
  "(\<forall>lg. rateLimited (fst (fetchWithProxies (stubWorld alwaysLimit)
                              (apiUrl (stubWorld alwaysLimit) ''x'') TJson lg)))
   \<and> resolveVideoData (stubWorld alwaysLimit) ''x'' 0 []
     = (Inl (Error ''Free Api Limit: 1 request/second.''),
        [Fetch ''https://corsproxy.io/?https://www.tikwm.com/api/?url=x'' (Some 8000),
         Sleep 2000,
         Fetch ''https://corsproxy.io/?https://www.tikwm.com/api/?url=x'' (Some 8000),
         Sleep 3000,
         Fetch ''https://corsproxy.io/?https://www.tikwm.com/api/?url=x'' (Some 8000),
         Sleep 4000,
         Fetch ''https://corsproxy.io/?https://www.tikwm.com/api/?url=x'' (Some 8000)])"
proof -
  have h: "\<forall>lg. rateLimited (fst (fetchWithProxies (stubWorld alwaysLimit)
                              (apiUrl (stubWorld alwaysLimit) ''x'') TJson lg))"
    by (simp add: fetch_alwaysLimit rateLimited_def tryBlock_stub)
  have r: "resolveVideoData (stubWorld alwaysLimit) ''x'' 0 []
     = (Inl (Error ''Free Api Limit: 1 request/second.''),
        [Fetch ''https://corsproxy.io/?https://www.tikwm.com/api/?url=x'' (Some 8000),
         Sleep 2000,
         Fetch ''https://corsproxy.io/?https://www.tikwm.com/api/?url=x'' (Some 8000),
         Sleep 3000,
         Fetch ''https://corsproxy.io/?https://www.tikwm.com/api/?url=x'' (Some 8000),
         Sleep 4000,
         Fetch ''https://corsproxy.io/?https://www.tikwm.com/api/?url=x'' (Some 8000)])"
    by (simp add: resolveVideoData.simps[of _ _ 0] resolveVideoData.simps[of _ _ "Suc 0"]
        resolveVideoData.simps[of _ _ "Suc (Suc 0)"] resolveVideoData.simps[of _ _ "Suc (Suc (Suc 0))"]
        fetch_alwaysLimit tryBlock_stub apiUrl_stub)
  show ?thesis
    using resolve_retry_bound[OF h, of "[]"] h r by simp
qed

lemma aboutLimit_empty: "\<not> aboutLimit []"
  by (simp add: aboutLimit_def toLowerCase_def)

lemma exhaustion_terminal:
  assumes "fetchWithProxies w (apiUrl w u) TJson lg = (Inl e, lg1)"
  shows "resolveVideoData w u retryCount lg = (Inl e, lg1) \<and> \<not> aboutLimit (message e)"
proof -
  have e: "e = allProxiesFailed"
    using fetchWithProxies_error[of w "apiUrl w u" TJson lg e] assms by simp
  then have n: "\<not> aboutLimit (message e)" and m: "message e \<noteq> []"
    by (simp_all add: allProxiesFailed_def not_aboutLimit_failed)
  have "resolveVideoData w u retryCount lg = (Inl (Error (message e)), lg1)"
    using assms n m by (subst resolveVideoData.simps) (simp add: tryBlock_def)
  then show ?thesis using n e by (simp add: allProxiesFailed_def)
qed

text \<open>
  Claim C8. When the payload of an attempt is well-formed, is not a success and carries
  a message text that matches "limit" without regard to case, and fewer than three
  retries have been made, the resolver waits 2000 ms + attempt * 1000 ms and recurses
  with the next attempt. On the other route nothing is ever classified as a rate limit:
  the error by which \<^verbatim>\<open>fetchWithProxies\<close> reports exhaustion has a fixed text that does not
  match "limit", and the resolver fails with it at once.
\<close>

theorem rate_limit_delay:
  "(fetchWithProxies w (apiUrl w u) TJson lg = (Inr (PJson data), lg1)
      \<and> \<not> (truthy data \<and> getProp data ''code'' = Some (JNum 0) \<and> truthyU (getProp data ''data''))
      \<and> getProp data ''msg'' = Some (JStr m) \<and> aboutLimit m \<and> retryCount < 3
    \<longrightarrow> resolveVideoData w u retryCount lg
          = resolveVideoData w u (retryCount + 1) (lg1 @ [Sleep (2000 + retryCount * 1000)]))
   \<and> (fetchWithProxies w (apiUrl w u) TJson lg = (Inl e, lg1)
    \<longrightarrow> resolveVideoData w u retryCount lg = (Inl e, lg1) \<and> \<not> aboutLimit (message e))"
proof (intro conjI impI)
  assume a: "fetchWithProxies w (apiUrl w u) TJson lg = (Inr (PJson data), lg1)
      \<and> \<not> (truthy data \<and> getProp data ''code'' = Some (JNum 0) \<and> truthyU (getProp data ''data''))
      \<and> getProp data ''msg'' = Some (JStr m) \<and> aboutLimit m \<and> retryCount < 3"
  then have ne: "m \<noteq> []" using aboutLimit_empty by auto
  have "tryBlock (Inr (PJson data)) retryCount = Recurse (2000 + retryCount * 1000)"
    using a ne by (auto simp: tryBlock_def notFound_def truthyU_def split: option.splits)
  then show "resolveVideoData w u retryCount lg
          = resolveVideoData w u (retryCount + 1) (lg1 @ [Sleep (2000 + retryCount * 1000)])"
    using a by (subst resolveVideoData.simps) simp
next
  assume "fetchWithProxies w (apiUrl w u) TJson lg = (Inl e, lg1)"
  from exhaustion_terminal[OF this, of retryCount]
  show "resolveVideoData w u retryCount lg = (Inl e, lg1)" and "\<not> aboutLimit (message e)"
    by simp_all
qed

theorem rate_limit_delay_witness:
  "fetchWithProxies (stubWorld alwaysLimit) (apiUrl (stubWorld alwaysLimit) ''x'') TJson []
     = (Inr (PJson (JObj [(''code'', JNum (- 1)),
                          (''msg'', JStr ''Free Api Limit: 1 request/second.'')])),
        [Fetch ''https://corsproxy.io/?https://www.tikwm.com/api/?url=x'' (Some 8000)])
   \<and> aboutLimit ''Free Api Limit: 1 request/second.''
   \<and> resolveVideoData (stubWorld alwaysLimit) ''x'' 2 []
     = resolveVideoData (stubWorld alwaysLimit) ''x'' 3
         [Fetch ''https://corsproxy.io/?https://www.tikwm.com/api/?url=x'' (Some 8000), Sleep 4000]"
proof -
  have f: "fetchWithProxies (stubWorld alwaysLimit) (apiUrl (stubWorld alwaysLimit) ''x'') TJson []
     = (Inr (PJson (JObj [(''code'', JNum (- 1)),
                          (''msg'', JStr ''Free Api Limit: 1 request/second.'')])),
        [Fetch ''https://corsproxy.io/?https://www.tikwm.com/api/?url=x'' (Some 8000)])"
    by (simp add: fetch_alwaysLimit apiUrl_stub)
  show ?thesis
    using rate_limit_delay[of "stubWorld alwaysLimit" "''x''" "[]"
        "JObj [(''code'', JNum (- 1)), (''msg'', JStr ''Free Api Limit: 1 request/second.'')]"
        "[Fetch ''https://corsproxy.io/?https://www.tikwm.com/api/?url=x'' (Some 8000)]"
        "''Free Api Limit: 1 request/second.''" 2]
      f aboutLimit_stub
    by (simp add: truthyU_def)
qed

text \<open>
  A failure with a message text never reaches the retry of the \<^verbatim>\<open>catch\<close> block: the error
  that the \<^verbatim>\<open>try\<close> block throws for it either does not match "limit" or comes after the
  third retry.
\<close>

lemma text_message_no_catch_retry:
  assumes "getProp data ''msg'' = Some (JStr m)"
    and "tryBlock (Inr (PJson data)) rc = Thrown err"
  shows "\<not> (aboutLimit (message err) \<and> rc < 3)"
  using assms not_aboutLimit_notFound
  by (auto simp: tryBlock_def notFound_def Let_def truthyU_def toStringU_def
      split: option.splits if_splits)

text \<open>
  A remark on the retry of the \<^verbatim>\<open>catch\<close> block, which no message text reaches. When the
  endpoint answers with a failure whose \<^verbatim>\<open>msg\<close> is not a text but the array
  \<^verbatim>\<open>["Api Limit reached"]\<close>, the \<^verbatim>\<open>typeof\<close> test fails, the \<^verbatim>\<open>try\<close> block throws an error with
  the text of the array, and the \<^verbatim>\<open>catch\<close> block retries after 2000 ms, whatever the
  attempt.
\<close>

lemma catch_retry_flat_delay:
  "rateLimited (fst (fetchWithProxies (stubWorld alwaysLimits)
                       (apiUrl (stubWorld alwaysLimits) ''x'') TJson []))
   \<and> resolveVideoData (stubWorld alwaysLimits) ''x'' 1 []
     = (Inl (Error ''Api Limit reached''),
        [Fetch ''https://corsproxy.io/?https://www.tikwm.com/api/?url=x'' (Some 8000),
         Sleep 2000,
         Fetch ''https://corsproxy.io/?https://www.tikwm.com/api/?url=x'' (Some 8000),
         Sleep 2000,
         Fetch ''https://corsproxy.io/?https://www.tikwm.com/api/?url=x'' (Some 8000)])"
  by (simp add: resolveVideoData.simps[of _ _ "Suc 0"] resolveVideoData.simps[of _ _ "Suc (Suc 0)"]
        resolveVideoData.simps[of _ _ "Suc (Suc (Suc 0))"]
        fetch_alwaysLimits tryBlock_stubs apiUrl_stub rateLimited_def aboutLimit_stubs)

section \<open>The scheduling loop\<close>

lemma batchLoop_runGroups: "batchLoop w pending i st = runGroups w (drop i pending) st"
proof (induction "length pending - i" arbitrary: i st)
  case 0
  then show ?case by (simp add: batchLoop.simps[of w pending i st])
next
  case (Suc n)
  then have lt: "i < length pending" and n: "n = length pending - Suc i" by auto
  have d: "drop i pending = pending ! i # drop (Suc i) pending"
    using lt by (simp add: Cons_nth_drop_Suc)
  let ?st2 = "runGroup w (pending ! i) st"
  show ?case
  proof (cases "Suc i < length pending")
    case True
    then have d2: "drop (Suc i) pending = pending ! Suc i # drop (Suc (Suc i)) pending"
      by (simp add: Cons_nth_drop_Suc)
    have "batchLoop w pending i st
          = batchLoop w pending (Suc i) (?st2\<lparr>events := events ?st2 @ [Sleep 1300]\<rparr>)"
      using lt True d by (simp add: batchLoop.simps[of w pending i st] BATCH_SIZE_def runGroup_def Let_def)
    also have "\<dots> = runGroups w (drop (Suc i) pending) (?st2\<lparr>events := events ?st2 @ [Sleep 1300]\<rparr>)"
      by (rule Suc.hyps(1)[OF n])
    also have "\<dots> = runGroups w (drop i pending) st"
      using d d2 by simp
    finally show ?thesis .
  next
    case False
    then have e: "drop (Suc i) pending = []" by simp
    have "batchLoop w pending i st = batchLoop w pending (Suc i) ?st2"
      using lt False d by (simp add: batchLoop.simps[of w pending i st] BATCH_SIZE_def runGroup_def Let_def)
    also have "\<dots> = runGroups w (drop (Suc i) pending) ?st2"
      by (rule Suc.hyps(1)[OF n])
    also have "\<dots> = runGroups w (drop i pending) st"
      using d e by simp
    finally show ?thesis .
  qed
qed

lemma runGroup_tasks:
  "tasks (runGroup w c st)
   = map (\<lambda>t. if task_id t = task_id c
               then settle ''Failed to fetch.'' (fst (resolveVideoData w (url c) 0 (events st))) t
               else t) (tasks st)"
  by (cases "resolveVideoData w (url c) 0 (events st)")
     (auto simp: runGroup_def processTask_def markDownloading_def markCompleted_def markFailed_def
           settle_def split: sum.splits)

lemma settle_id [simp]: "task_id (settle f r t) = task_id t"
  by (simp add: settle_def split: sum.splits)

lemma runGroups_tasks:
  "distinct (map task_id cs) \<Longrightarrow>
   \<exists>L. tasks (runGroups w cs st)
        = map (\<lambda>t. case find (\<lambda>c. task_id c = task_id t) cs of
                     Some c \<Rightarrow> settle ''Failed to fetch.'' (fst (resolveVideoData w (url c) 0 (L c))) t
                   | None \<Rightarrow> t) (tasks st)"
proof (induction w cs st rule: runGroups.induct)
  case (1 w st)
  show ?case by (simp add: map_idI)
next
  case (2 w c st)
  show ?case
    by (intro exI[of _ "\<lambda>_. events st"]) (simp add: runGroup_tasks)
next
  case (3 w c c' cs st)
  let ?st' = "(runGroup w c st)\<lparr>events := events (runGroup w c st) @ [Sleep 1300]\<rparr>"
  from "3.prems" have dist: "distinct (map task_id (c' # cs))"
    by simp
  from "3.prems" have notin: "\<forall>x \<in> set (c' # cs). task_id x \<noteq> task_id c"
    by (metis distinct.simps(2) image_eqI list.simps(9) set_map)
  from "3.IH"[OF dist] obtain L where L:
    "tasks (runGroups w (c' # cs) ?st')
        = map (\<lambda>t. case find (\<lambda>c. task_id c = task_id t) (c' # cs) of
                     Some c \<Rightarrow> settle ''Failed to fetch.'' (fst (resolveVideoData w (url c) 0 (L c))) t
                   | None \<Rightarrow> t) (tasks ?st')"
    by blast
  have nf: "find (\<lambda>x. task_id x = task_id c) (c' # cs) = None"
    using notin by (auto simp: find_None_iff)
  have cne: "c \<notin> set (c' # cs)" using notin by auto
  let ?L = "L(c := events st)"
  have "tasks (runGroups w (c # c' # cs) st)
        = map (\<lambda>t. case find (\<lambda>x. task_id x = task_id t) (c # c' # cs) of
                     Some x \<Rightarrow> settle ''Failed to fetch.'' (fst (resolveVideoData w (url x) 0 (?L x))) t
                   | None \<Rightarrow> t) (tasks st)"
  proof -
    have "tasks (runGroups w (c # c' # cs) st) = tasks (runGroups w (c' # cs) ?st')" by simp
    also have "\<dots> = map (\<lambda>t. case find (\<lambda>c. task_id c = task_id t) (c' # cs) of
                     Some c \<Rightarrow> settle ''Failed to fetch.'' (fst (resolveVideoData w (url c) 0 (L c))) t
                   | None \<Rightarrow> t) (tasks (runGroup w c st))"
      using L by simp
    also have "\<dots> = map (\<lambda>t. case find (\<lambda>x. task_id x = task_id t) (c # c' # cs) of
                     Some x \<Rightarrow> settle ''Failed to fetch.'' (fst (resolveVideoData w (url x) 0 (?L x))) t
                   | None \<Rightarrow> t) (tasks st)"
      unfolding runGroup_tasks map_map
    proof (rule map_cong[OF refl])
      fix t assume "t \<in> set (tasks st)"
      show "((\<lambda>t. case find (\<lambda>c. task_id c = task_id t) (c' # cs) of
                     Some c \<Rightarrow> settle ''Failed to fetch.'' (fst (resolveVideoData w (url c) 0 (L c))) t
                   | None \<Rightarrow> t) \<circ>
            (\<lambda>t. if task_id t = task_id c
               then settle ''Failed to fetch.'' (fst (resolveVideoData w (url c) 0 (events st))) t
               else t)) t
          = (case find (\<lambda>x. task_id x = task_id t) (c # c' # cs) of
                     Some x \<Rightarrow> settle ''Failed to fetch.'' (fst (resolveVideoData w (url x) 0 (?L x))) t
                   | None \<Rightarrow> t)"
      proof (cases "task_id t = task_id c")
        case True
        then show ?thesis using nf
          by (simp del: find.simps add: find.simps(2)[of _ c "c' # cs"])
      next
        case False
        have "find (\<lambda>x. task_id x = task_id t) (c' # cs) = Some x \<Longrightarrow> x \<noteq> c" for x
          using cne by (metis find_Some_iff nth_mem)
        then show ?thesis using False
          by (auto split: option.splits simp del: find.simps simp add: find.simps(2)[of _ c "c' # cs"])
      qed
    qed
    finally show ?thesis .
  qed
  then show ?case by blast
qed

section \<open>Isolation of the tasks of a pass\<close>

lemma id_notin: "task_id t \<notin> task_id ` set ts \<Longrightarrow> x \<in> set ts \<Longrightarrow> task_id x \<noteq> task_id t"
  by (metis image_eqI)

lemma distinct_id_eq:
  "distinct (map task_id ts) \<Longrightarrow> x \<in> set ts \<Longrightarrow> y \<in> set ts \<Longrightarrow> task_id x = task_id y \<Longrightarrow> x = y"
  by (auto simp: distinct_map dest: inj_onD)

lemma find_filter_distinct:
  "distinct (map task_id ts) \<Longrightarrow> t \<in> set ts \<Longrightarrow>
   find (\<lambda>c. task_id c = task_id t) (filter P ts) = (if P t then Some t else None)"
proof (induction ts)
  case Nil
  then show ?case by simp
next
  case (Cons a ts)
  show ?case
  proof (cases "a = t")
    case True
    have "find (\<lambda>c. task_id c = task_id t) (filter P ts) = None"
      using Cons.prems(1) True by (auto simp: find_None_iff dest: id_notin)
    then show ?thesis using True by simp
  next
    case False
    then have t: "t \<in> set ts" using Cons.prems(2) by simp
    then have "task_id a \<noteq> task_id t" using Cons.prems(1) by (auto dest: id_notin)
    then show ?thesis using Cons.IH[OF _ t] Cons.prems(1) by simp
  qed
qed

lemma processBatch_tasks:
  assumes "distinct (map task_id tasksC)"
  shows "\<exists>L. tasks (processBatch w False tasksC st)
           = map (\<lambda>t. case find (\<lambda>c. task_id c = task_id t) (pendingTasks tasksC) of
                        Some c \<Rightarrow> settle ''Failed to fetch.'' (fst (resolveVideoData w (url c) 0 (L c))) t
                      | None \<Rightarrow> t) (tasks st)"
proof (cases "pendingTasks tasksC = []")
  case True
  then show ?thesis by (simp add: processBatch_def map_idI)
next
  case False
  have d: "distinct (map task_id (pendingTasks tasksC))"
    using assms by (simp add: pendingTasks_def distinct_map_filter)
  from runGroups_tasks[OF d, of w "st\<lparr>isProcessing := True\<rparr>"] obtain L where
    "tasks (runGroups w (pendingTasks tasksC) (st\<lparr>isProcessing := True\<rparr>))
        = map (\<lambda>t. case find (\<lambda>c. task_id c = task_id t) (pendingTasks tasksC) of
                     Some c \<Rightarrow> settle ''Failed to fetch.'' (fst (resolveVideoData w (url c) 0 (L c))) t
                   | None \<Rightarrow> t) (tasks st)"
    by auto
  then show ?thesis using False by (auto simp: processBatch_def batchLoop_runGroups)
qed

text \<open>
  Claim C6. In a pass over a queue with unique identifiers, every task is left as its
  own resolution leaves it: a pending task is settled from the outcome of the resolution
  of its own URL (COMPLETED with the resolved data on success, ERROR with its own error
  message on failure), and every other task is unchanged. No task's outcome enters the
  record of another.
\<close>

theorem batch_isolation:
  assumes "distinct (map task_id (tasks st))" and "\<not> isProcessing st"
  shows "\<exists>L. tasks (startDownload w st)
           = map (\<lambda>t. if status t = IDLE \<or> status t = ERROR
                       then settle ''Failed to fetch.'' (fst (resolveVideoData w (url t) 0 (L t))) t
                       else t) (tasks st)"
proof -
  from processBatch_tasks[OF assms(1), of w st] obtain L where L:
    "tasks (processBatch w False (tasks st) st)
           = map (\<lambda>t. case find (\<lambda>c. task_id c = task_id t) (pendingTasks (tasks st)) of
                        Some c \<Rightarrow> settle ''Failed to fetch.'' (fst (resolveVideoData w (url c) 0 (L c))) t
                      | None \<Rightarrow> t) (tasks st)"
    by blast
  have "map (\<lambda>t. case find (\<lambda>c. task_id c = task_id t) (pendingTasks (tasks st)) of
                        Some c \<Rightarrow> settle ''Failed to fetch.'' (fst (resolveVideoData w (url c) 0 (L c))) t
                      | None \<Rightarrow> t) (tasks st)
        = map (\<lambda>t. if status t = IDLE \<or> status t = ERROR
                       then settle ''Failed to fetch.'' (fst (resolveVideoData w (url t) 0 (L t))) t
                       else t) (tasks st)"
    by (rule map_cong[OF refl]) (simp add: pendingTasks_def find_filter_distinct[OF assms(1)])
  then show ?thesis using L assms(2) by (auto simp: startDownload_def)
qed

section \<open>The invariant of the queue\<close>

lemma settle_inv:
  "taskInv t \<Longrightarrow> status t \<noteq> COMPLETED \<Longrightarrow> f \<noteq> [] \<Longrightarrow> taskInv (settle f r t)"
  by (auto simp: taskInv_def settle_def split: sum.splits)

lemma reset_inv:
  "taskInv t \<Longrightarrow>
   taskInv (if status t = ERROR then t\<lparr>status := IDLE, errorMessage := None, progress := 0\<rparr> else t)"
  by (auto simp: taskInv_def)

lemma good_processBatch:
  assumes "good ts"
    and "map task_id (tasks st) = map task_id ts"
    and "\<forall>t' \<in> set (tasks st). taskInv t'"
    and "\<And>t t'. t \<in> set ts \<Longrightarrow> t' \<in> set (tasks st) \<Longrightarrow> task_id t' = task_id t \<Longrightarrow>
           status t = IDLE \<or> status t = ERROR \<Longrightarrow> status t' \<noteq> COMPLETED"
  shows "good (tasks (processBatch w b ts st))"
proof (cases b)
  case True
  then show ?thesis using assms by (simp add: processBatch_def good_def)
next
  case False
  have d: "distinct (map task_id ts)" using assms(1) by (simp add: good_def)
  from processBatch_tasks[OF d, of w st] obtain L where L:
    "tasks (processBatch w False ts st)
           = map (\<lambda>t. case find (\<lambda>c. task_id c = task_id t) (pendingTasks ts) of
                        Some c \<Rightarrow> settle ''Failed to fetch.'' (fst (resolveVideoData w (url c) 0 (L c))) t
                      | None \<Rightarrow> t) (tasks st)"
    by blast
  let ?g = "\<lambda>t. case find (\<lambda>c. task_id c = task_id t) (pendingTasks ts) of
                        Some c \<Rightarrow> settle ''Failed to fetch.'' (fst (resolveVideoData w (url c) 0 (L c))) t
                      | None \<Rightarrow> t"
  have ids: "map task_id (map ?g (tasks st)) = map task_id (tasks st)"
    by (auto split: option.splits)
  have inv: "taskInv (?g t')" if t': "t' \<in> set (tasks st)" for t'
  proof (cases "find (\<lambda>c. task_id c = task_id t') (pendingTasks ts)")
    case None
    then show ?thesis using assms(3) t' by simp
  next
    case (Some c)
    then have c: "c \<in> set ts" "status c = IDLE \<or> status c = ERROR" "task_id c = task_id t'"
      by (auto simp: pendingTasks_def find_Some_iff dest: nth_mem)
    from assms(4)[OF c(1) t' c(3)[symmetric] c(2)] have "status t' \<noteq> COMPLETED" .
    then show ?thesis using Some assms(3) t' by (simp add: settle_inv)
  qed
  have "distinct (map task_id (map ?g (tasks st)))"
    by (simp only: ids assms(2) d)
  moreover have "\<forall>x \<in> set (map ?g (tasks st)). taskInv x"
  proof (intro ballI)
    fix x assume "x \<in> set (map ?g (tasks st))"
    then obtain y where y: "y \<in> set (tasks st)" and x: "x = ?g y"
      unfolding set_map by blast
    show "taskInv x" unfolding x by (rule inv[OF y])
  qed
  ultimately show ?thesis
    unfolding good_def using False L by simp
qed

lemma good_start: "good (tasks st) \<Longrightarrow> good (tasks (startDownload w st))"
  unfolding startDownload_def
proof (rule good_processBatch)
  assume g: "good (tasks st)"
  show "good (tasks st)" by (rule g)
  show "map task_id (tasks st) = map task_id (tasks st)" by simp
  show "\<forall>t' \<in> set (tasks st). taskInv t'" using g by (simp add: good_def)
  fix t t' assume "t \<in> set (tasks st)" "t' \<in> set (tasks st)" "task_id t' = task_id t"
    "status t = IDLE \<or> status t = ERROR"
  moreover from this g have "t' = t"
    by (auto simp: good_def intro: distinct_id_eq)
  ultimately show "status t' \<noteq> COMPLETED" by auto
qed

lemma good_retryAll: "good (tasks st) \<Longrightarrow> good (tasks (handleRetryAllErrors w st))"
  unfolding handleRetryAllErrors_def
proof (rule good_processBatch)
  assume g: "good (tasks st)"
  let ?st = "st\<lparr>tasks := resetErrors (tasks st), events := events st @ [Sleep 100]\<rparr>"
  show "good (tasks st)" by (rule g)
  show "map task_id (tasks ?st) = map task_id (tasks st)"
    by (simp add: resetErrors_def)
  show "\<forall>t' \<in> set (tasks ?st). taskInv t'"
    using g by (auto simp: good_def resetErrors_def taskInv_def)
  fix t t' assume t: "t \<in> set (tasks st)" and t': "t' \<in> set (tasks ?st)"
    and i: "task_id t' = task_id t" and s: "status t = IDLE \<or> status t = ERROR"
  from t' obtain x where x: "x \<in> set (tasks st)"
    "t' = (if status x = ERROR then x\<lparr>status := IDLE, errorMessage := None, progress := 0\<rparr> else x)"
    by (auto simp: resetErrors_def)
  then have "task_id x = task_id t" using i by (simp split: if_splits)
  with x(1) t g have "x = t" by (auto simp: good_def intro: distinct_id_eq)
  with x(2) s show "status t' \<noteq> COMPLETED" by auto
qed

lemma find_distinct:
  "distinct (map task_id ts) \<Longrightarrow> t \<in> set ts \<Longrightarrow> find (\<lambda>x. task_id x = task_id t) ts = Some t"
  using find_filter_distinct[of ts t "\<lambda>_. True"] by simp

lemma good_retry:
  assumes g: "good (tasks st)" and t: "t \<in> set (tasks st)" and s: "status t = ERROR"
  shows "good (tasks (handleSingleRetry w (task_id t) st))"
proof -
  have d: "distinct (map task_id (tasks st))" using g by (simp add: good_def)
  have f: "find (\<lambda>x. task_id x = task_id t) (tasks st) = Some t"
    by (rule find_distinct[OF d t])
  let ?r = "fst (resolveVideoData w (url t) 0 (events st))"
  let ?g = "\<lambda>x. if task_id x = task_id t then settle ''Retry failed.'' ?r x else x"
  have T: "tasks (handleSingleRetry w (task_id t) st) = map ?g (tasks st)"
    by (cases "resolveVideoData w (url t) 0 (events st)")
       (auto simp: handleSingleRetry_def f markCompleted_def markFailed_def settle_def Let_def
             split: sum.splits)
  have ids: "map task_id (map ?g (tasks st)) = map task_id (tasks st)"
    by auto
  have inv: "taskInv (?g x)" if x: "x \<in> set (tasks st)" for x
  proof (cases "task_id x = task_id t")
    case True
    with x t d have "x = t" by (auto intro: distinct_id_eq)
    then show ?thesis using s g t by (simp add: settle_inv good_def)
  next
    case False
    then show ?thesis using g x by (simp add: good_def)
  qed
  have "distinct (map task_id (map ?g (tasks st)))"
    by (simp only: ids d)
  moreover have "\<forall>x \<in> set (map ?g (tasks st)). taskInv x"
  proof (intro ballI)
    fix x assume "x \<in> set (map ?g (tasks st))"
    then obtain y where y: "y \<in> set (tasks st)" and x: "x = ?g y"
      unfolding set_map by blast
    show "taskInv x" unfolding x by (rule inv[OF y])
  qed
  ultimately show ?thesis
    unfolding good_def T by simp
qed

lemma reachable_good: "reachable w st \<Longrightarrow> good (tasks st)"
proof (induction rule: reachable.induct)
  case initial
  show ?case by (simp add: good_def)
next
  case (enqueue st links)
  have m: "map task_id (addLinks links (tasks st)) = map task_id (tasks st) @ map fst links"
    by (simp add: addLinks_def newTask_def comp_def)
  have "distinct (map task_id (tasks st) @ map fst links)"
    using enqueue by (auto simp: good_def)
  moreover have "\<forall>t \<in> set (addLinks links (tasks st)). taskInv t"
    using enqueue.IH by (auto simp: addLinks_def newTask_def taskInv_def good_def)
  ultimately show ?case
    unfolding good_def using m by simp
next
  case (remove st i)
  then show ?case by (auto simp: good_def removeTask_def distinct_map_filter)
next
  case (clear st)
  then show ?case by (auto simp: good_def clearCompleted_def distinct_map_filter)
next
  case (start st)
  then show ?case by (simp add: good_start)
next
  case (retryAll st)
  then show ?case by (simp add: good_retryAll)
next
  case (retry st t)
  then show ?case by (simp add: good_retry)
qed

text \<open>
  As long as the handlers run one at a time, each to its end, the invariant of the tasks
  holds in every state they reach: a task carries a download URL only if its status is
  COMPLETED, and its error message is non-empty if and only if its status is ERROR.
\<close>

theorem task_invariant:
  assumes "reachable w st" and "t \<in> set (tasks st)"
  shows "(downloadUrl t \<noteq> None \<longrightarrow> status t = COMPLETED)
         \<and> ((\<exists>m. errorMessage t = Some m \<and> m \<noteq> []) \<longleftrightarrow> status t = ERROR)"
  using reachable_good[OF assms(1)] assms(2) by (simp add: good_def taskInv_def)

lemma resolve_oneBad_good1:
  "resolveVideoData (stubWorld oneBad) ''good1'' 0 lg
   = (Inr \<lparr>data_title = JStr ''demo'', data_thumbnail = None,
            data_downloadUrl = Some (JStr ''https://cdn.test/v.mp4''), data_size = None\<rparr>,
      lg @ [Fetch ''https://corsproxy.io/?https://www.tikwm.com/api/?url=good1'' (Some 8000)])"
  by (simp add: resolveVideoData.simps[of _ _ 0] stubWorld_def stubParse_def oneBad_def
      fetchWithProxies_def strategies_def
      tryStrategies_Cons attempt_def tryBlock_def apiUrl_def timeoutFor_def extractData_def)

lemma resolve_oneBad_good2:
  "resolveVideoData (stubWorld oneBad) ''good2'' 0 lg
   = (Inr \<lparr>data_title = JStr ''demo'', data_thumbnail = None,
            data_downloadUrl = Some (JStr ''https://cdn.test/v.mp4''), data_size = None\<rparr>,
      lg @ [Fetch ''https://corsproxy.io/?https://www.tikwm.com/api/?url=good2'' (Some 8000)])"
  by (simp add: resolveVideoData.simps[of _ _ 0] stubWorld_def stubParse_def oneBad_def
      fetchWithProxies_def strategies_def
      tryStrategies_Cons attempt_def tryBlock_def apiUrl_def timeoutFor_def extractData_def)

lemma resolve_oneBad_bad:
  "resolveVideoData (stubWorld oneBad) ''bad'' 0 lg
   = (Inl (Error ''All proxies failed to fetch data.''),
      lg @ [Fetch ''https://corsproxy.io/?https://www.tikwm.com/api/?url=bad'' (Some 8000),
            Fetch ''https://api.allorigins.win/raw?url=https://www.tikwm.com/api/?url=bad'' (Some 8000),
            Fetch ''https://api.codetabs.com/v1/proxy?quest=https://www.tikwm.com/api/?url=bad'' (Some 8000),
            Fetch ''https://www.tikwm.com/api/?url=bad'' (Some 8000),
            Fetch ''https://api.allorigins.win/get?url=https://www.tikwm.com/api/?url=bad'' None])"
  by (simp add: resolveVideoData.simps[of _ _ 0] stubWorld_def oneBad_def
      fetchWithProxies_def strategies_def wrappedFallback_def wrappedUrl_def allProxiesFailed_def
      tryStrategies_Cons attempt_def tryBlock_def apiUrl_def timeoutFor_def not_aboutLimit_failed)

lemma run_queue3:
  "tasks (startDownload (stubWorld oneBad) (idle queue3))
   = [settle ''Failed to fetch.''
        (Inr \<lparr>data_title = JStr ''demo'', data_thumbnail = None,
               data_downloadUrl = Some (JStr ''https://cdn.test/v.mp4''), data_size = None\<rparr>)
        (newTask (''1'', ''good1'')),
      settle ''Failed to fetch.'' (Inl (Error ''All proxies failed to fetch data.''))
        (newTask (''2'', ''bad'')),
      settle ''Failed to fetch.''
        (Inr \<lparr>data_title = JStr ''demo'', data_thumbnail = None,
               data_downloadUrl = Some (JStr ''https://cdn.test/v.mp4''), data_size = None\<rparr>)
        (newTask (''3'', ''good2''))]"
  by (simp add: startDownload_def processBatch_def idle_def queue3_def pendingTasks_def
      batchLoop_runGroups runGroup_def processTask_def markDownloading_def markCompleted_def
      markFailed_def newTask_def settle_def
      resolve_oneBad_good1 resolve_oneBad_good2 resolve_oneBad_bad)

theorem batch_isolation_witness:
  "distinct (map task_id (tasks (idle queue3))) \<and> \<not> isProcessing (idle queue3)
   \<and> map status (tasks (startDownload (stubWorld oneBad) (idle queue3)))
     = [COMPLETED, ERROR, COMPLETED]
   \<and> map errorMessage (tasks (startDownload (stubWorld oneBad) (idle queue3)))
     = [None, Some ''All proxies failed to fetch data.'', None]"
proof -
  have d: "distinct (map task_id (tasks (idle queue3)))"
    by (simp add: idle_def queue3_def newTask_def)
  have p: "\<not> isProcessing (idle queue3)"
    by (simp add: idle_def)
  show ?thesis
    using batch_isolation[OF d p, of "stubWorld oneBad"] d p
    by (simp add: run_queue3 settle_def newTask_def)
qed

theorem task_invariant_witness:
  "reachable (stubWorld oneBad)
     (startDownload (stubWorld oneBad)
        (idle [] \<lparr>tasks := addLinks [(''2'', ''bad'')] (tasks (idle []))\<rparr>))
   \<and> tasks (startDownload (stubWorld oneBad)
        (idle [] \<lparr>tasks := addLinks [(''2'', ''bad'')] (tasks (idle []))\<rparr>))
     = [settle ''Failed to fetch.'' (Inl (Error ''All proxies failed to fetch data.''))
          (newTask (''2'', ''bad''))]
   \<and> downloadUrl (settle ''Failed to fetch.'' (Inl (Error ''All proxies failed to fetch data.''))
          (newTask (''2'', ''bad''))) = None
   \<and> errorMessage (settle ''Failed to fetch.'' (Inl (Error ''All proxies failed to fetch data.''))
          (newTask (''2'', ''bad''))) = Some ''All proxies failed to fetch data.''
   \<and> status (settle ''Failed to fetch.'' (Inl (Error ''All proxies failed to fetch data.''))
          (newTask (''2'', ''bad''))) = ERROR"
proof -
  let ?w = "stubWorld oneBad"
  let ?s0 = "idle []"
  let ?s1 = "?s0\<lparr>tasks := addLinks [(''2'', ''bad'')] (tasks ?s0)\<rparr>"
  let ?t = "settle ''Failed to fetch.'' (Inl (Error ''All proxies failed to fetch data.''))
          (newTask (''2'', ''bad''))"
  have r0: "reachable ?w ?s0"
    unfolding idle_def by (rule reachable.initial)
  have r1: "reachable ?w ?s1"
    by (rule reachable.enqueue[OF r0]) (simp_all add: idle_def)
  have r2: "reachable ?w (startDownload ?w ?s1)"
    by (rule reachable.start[OF r1])
  have T: "tasks (startDownload ?w ?s1) = [?t]"
    by (simp add: startDownload_def processBatch_def idle_def pendingTasks_def addLinks_def
      batchLoop_runGroups runGroup_def processTask_def markDownloading_def markCompleted_def
      markFailed_def newTask_def settle_def resolve_oneBad_bad)
  have m: "?t \<in> set (tasks (startDownload ?w ?s1))"
    by (simp only: T list.set_intros)
  show ?thesis
    using task_invariant[OF r2 m] r2 T
    by (simp add: settle_def newTask_def)
qed

lemma resolve_flaky_A:
  "resolveVideoData (stubWorld flaky) ''A'' 0 lg
   = (Inr \<lparr>data_title = JStr ''demo'', data_thumbnail = None,
            data_downloadUrl = Some (JStr ''https://cdn.test/v.mp4''), data_size = None\<rparr>,
      lg @ [Fetch ''https://corsproxy.io/?https://www.tikwm.com/api/?url=A'' (Some 8000)])"
  by (simp add: resolveVideoData.simps[of _ _ 0] stubWorld_def stubParse_def flaky_def
      fetchWithProxies_def strategies_def
      tryStrategies_Cons attempt_def tryBlock_def apiUrl_def timeoutFor_def extractData_def)

lemma resolve_flaky_B_first:
  "Fetch ''https://corsproxy.io/?https://www.tikwm.com/api/?url=B'' (Some 8000) \<notin> set lg \<Longrightarrow>
   resolveVideoData (stubWorld flaky) ''B'' 0 lg
   = (Inr \<lparr>data_title = JStr ''demo'', data_thumbnail = None,
            data_downloadUrl = Some (JStr ''https://cdn.test/v.mp4''), data_size = None\<rparr>,
      lg @ [Fetch ''https://corsproxy.io/?https://www.tikwm.com/api/?url=B'' (Some 8000)])"
  by (simp add: resolveVideoData.simps[of _ _ 0] stubWorld_def stubParse_def flaky_def
      fetchWithProxies_def strategies_def
      tryStrategies_Cons attempt_def tryBlock_def apiUrl_def timeoutFor_def extractData_def)

lemma resolve_flaky_B_again:
  "Fetch ''https://corsproxy.io/?https://www.tikwm.com/api/?url=B'' (Some 8000) \<in> set lg \<Longrightarrow>
   fst (resolveVideoData (stubWorld flaky) ''B'' 0 lg)
   = Inl (Error ''All proxies failed to fetch data.'')"
  by (simp add: resolveVideoData.simps[of _ _ 0] stubWorld_def flaky_def
      fetchWithProxies_def strategies_def wrappedFallback_def wrappedUrl_def allProxiesFailed_def
      tryStrategies_Cons attempt_def tryBlock_def apiUrl_def timeoutFor_def not_aboutLimit_failed)

lemma overlapRetry_eval:
  "tasks overlapRetry
   = [settle ''Failed to fetch.''
        (Inr \<lparr>data_title = JStr ''demo'', data_thumbnail = None,
               data_downloadUrl = Some (JStr ''https://cdn.test/v.mp4''), data_size = None\<rparr>) taskA,
      settle ''Retry failed.''
        (Inr \<lparr>data_title = JStr ''demo'', data_thumbnail = None,
               data_downloadUrl = Some (JStr ''https://cdn.test/v.mp4''), data_size = None\<rparr>) taskB]
   \<and> events overlapRetry
     = [Fetch ''https://corsproxy.io/?https://www.tikwm.com/api/?url=A'' (Some 8000),
        Sleep 1300,
        Fetch ''https://corsproxy.io/?https://www.tikwm.com/api/?url=B'' (Some 8000)]"
  by (simp add: overlapRetry_def overlapPause_def overlapFirstGroup_def overlapStart_def idle_def taskA_def taskB_def
      newTask_def processTask_def markDownloading_def markCompleted_def handleSingleRetry_def
      settle_def resolve_flaky_A resolve_flaky_B_first)

text \<open>
  Without the retry, the two groups and the pause between them are the pass that "Start
  Download" runs on this queue.
\<close>

lemma pass_without_retry:
  "startDownload (stubWorld flaky) (idle [taskA, taskB])
   = (processTask (stubWorld flaky) taskB
        (overlapPause\<lparr>tasks := markDownloading [taskB] (tasks overlapPause)\<rparr>))
       \<lparr>isProcessing := False\<rparr>"
  by (simp add: startDownload_def processBatch_def idle_def pendingTasks_def taskA_def taskB_def
      newTask_def batchLoop_runGroups runGroup_def overlapPause_def overlapFirstGroup_def
      overlapStart_def)

text \<open>
  Claim C2 does not hold of the code: a task reached by the public operations can be in
  ERROR and carry a download URL. "Start Download" and "Retry Failed" are disabled while
  a pass runs (\<^verbatim>\<open>disabled={isProcessing}\<close>), the retry button of a task is not. In the run
  \<open>overlapSecondGroup\<close> the pass holds the failed task \<^verbatim>\<open>b\<close> in its snapshot; while the pass is
  suspended the retry button of \<^verbatim>\<open>b\<close> resolves it, which leaves it COMPLETED with its download
  URL; the pass then comes to \<^verbatim>\<open>b\<close>, marks it as downloading again without clearing the URL,
  and when this second resolution fails the task is left in ERROR with the download URL
  still set.
\<close>

theorem retry_overlap_breaks_invariant:
  "map status (tasks overlapSecondGroup) = [COMPLETED, ERROR]
   \<and> map downloadUrl (tasks overlapSecondGroup)
     = [Some (JStr ''https://cdn.test/v.mp4''), Some (JStr ''https://cdn.test/v.mp4'')]"
proof -
  have "tasks overlapSecondGroup
        = markFailed ''b'' (Error ''All proxies failed to fetch data.'') ''Failed to fetch.''
            (markDownloading [taskB] (tasks overlapRetry))"
    using resolve_flaky_B_again[of "events overlapRetry"]
    by (cases "resolveVideoData (stubWorld flaky) ''B'' 0 (events overlapRetry)")
       (simp add: overlapSecondGroup_def processTask_def overlapRetry_eval taskB_def newTask_def)
  then show ?thesis
    by (simp add: overlapRetry_eval markFailed_def markDownloading_def settle_def taskA_def taskB_def
        newTask_def)
qed

section \<open>Pacing between groups\<close>

lemma sleep_delays: "Sleep d \<in> set es \<longleftrightarrow> d \<in> set (delays es)"
  by (induction es rule: delays.induct) auto

lemma tryStrategies_grows:
  "length lg < length (snd (tryStrategies w (f # fs) t ty lg))"
proof -
  from tryStrategies_order[of "f # fs" w t ty lg] obtain k where k:
    "snd (tryStrategies w (f # fs) t ty lg) = lg @ requests (take k (f # fs)) t ty"
    "case fst (tryStrategies w (f # fs) t ty lg) of
       Some p \<Rightarrow> 0 < k \<and> attempt w ty (lg @ requests (take (k - 1) (f # fs)) t ty)
                             (((f # fs) ! (k - 1)) t) = Some p
     | None \<Rightarrow> k = length (f # fs)
          \<and> (\<forall>j<k. attempt w ty (lg @ requests (take j (f # fs)) t ty) (((f # fs) ! j) t) = None)"
    by blast
  have "0 < k" using k(2) by (cases "fst (tryStrategies w (f # fs) t ty lg)") auto
  then show ?thesis using k(1) by (cases k) (auto simp: requests_def)
qed

lemma fetchWithProxies_grows:
  "\<exists>new. snd (fetchWithProxies w t ty lg) = lg @ new \<and> new \<noteq> [] \<and> delays new = []"
proof -
  from fetchWithProxies_log[of w t ty lg] obtain new where
    n: "snd (fetchWithProxies w t ty lg) = lg @ new" "delays new = []" by blast
  have "length lg < length (snd (tryStrategies w (strategies w) t ty lg))"
    unfolding strategies_def by (rule tryStrategies_grows)
  moreover have "length (snd (tryStrategies w (strategies w) t ty lg))
                 \<le> length (snd (fetchWithProxies w t ty lg))"
    by (auto simp: fetchWithProxies_def wrappedFallback_envelope split: prod.splits option.splits)
  ultimately have "new \<noteq> []" using n(1) by auto
  with n show ?thesis by blast
qed

lemma tryBlock_delay: "tryBlock res rc = Recurse ms \<Longrightarrow> rc < 3 \<and> 2000 \<le> ms"
  by (auto simp: tryBlock_def notFound_def Let_def
      split: sum.splits payload.splits option.splits if_splits)

lemma resolve_log:
  "\<exists>new. snd (resolveVideoData w u rc lg) = lg @ new \<and> new \<noteq> []
        \<and> (\<forall>d \<in> set (delays new). 2000 \<le> d)"
proof (induction "3 - rc" arbitrary: rc lg)
  case 0
  obtain res lg1 where F: "fetchWithProxies w (apiUrl w u) TJson lg = (res, lg1)"
    by (cases "fetchWithProxies w (apiUrl w u) TJson lg")
  from fetchWithProxies_grows[of w "apiUrl w u" TJson lg] F obtain new where
    n: "lg1 = lg @ new" "new \<noteq> []" "delays new = []" by auto
  have "snd (resolveVideoData w u rc lg) = lg1"
    using 0 F tryBlock_delay[of res rc]
    by (subst resolveVideoData.simps) (auto split: tryOutcome.splits)
  then show ?case using n by auto
next
  case (Suc n)
  obtain res lg1 where F: "fetchWithProxies w (apiUrl w u) TJson lg = (res, lg1)"
    by (cases "fetchWithProxies w (apiUrl w u) TJson lg")
  from fetchWithProxies_grows[of w "apiUrl w u" TJson lg] F obtain new where
    n: "lg1 = lg @ new" "new \<noteq> []" "delays new = []" by auto
  have n': "n = 3 - Suc rc" using Suc.hyps(2) by simp
  have rec: "\<exists>new'. snd (resolveVideoData w u (Suc rc) (lg1 @ [Sleep ms])) = lg @ new' \<and> new' \<noteq> []
        \<and> (\<forall>d \<in> set (delays new'). 2000 \<le> d)" if ms: "2000 \<le> ms" for ms
  proof -
    from Suc.hyps(1)[OF n', of "lg1 @ [Sleep ms]"] obtain x where
      x: "snd (resolveVideoData w u (Suc rc) (lg1 @ [Sleep ms])) = (lg1 @ [Sleep ms]) @ x"
         "\<forall>d \<in> set (delays x). 2000 \<le> d" by blast
    have "snd (resolveVideoData w u (Suc rc) (lg1 @ [Sleep ms])) = lg @ (new @ Sleep ms # x)"
      using x(1) n(1) by simp
    moreover have "\<forall>d \<in> set (delays (new @ Sleep ms # x)). 2000 \<le> d"
      using x(2) n(3) ms by (simp add: delays_append)
    ultimately show ?thesis by blast
  qed
  show ?case
  proof (cases "tryBlock res rc")
    case (Returned d)
    then have "snd (resolveVideoData w u rc lg) = lg1"
      using F by (subst resolveVideoData.simps) simp
    then show ?thesis using n by auto
  next
    case (Recurse ms)
    then have "resolveVideoData w u rc lg = resolveVideoData w u (Suc rc) (lg1 @ [Sleep ms])"
      using F by (subst resolveVideoData.simps) simp
    then show ?thesis using rec[of ms] tryBlock_delay[OF Recurse] by simp
  next
    case (Thrown err)
    show ?thesis
    proof (cases "message err \<noteq> [] \<and> aboutLimit (message err) \<and> rc < 3")
      case True
      then have "resolveVideoData w u rc lg = resolveVideoData w u (Suc rc) (lg1 @ [Sleep 2000])"
        using F Thrown by (subst resolveVideoData.simps) simp
      then show ?thesis using rec[of 2000] by simp
    next
      case False
      then have "snd (resolveVideoData w u rc lg) = lg1"
        using F Thrown by (subst resolveVideoData.simps) auto
      then show ?thesis using n by auto
    qed
  qed
qed

lemma runGroup_events:
  "\<exists>new. events (runGroup w c st) = events st @ new \<and> new \<noteq> [] \<and> Sleep 1300 \<notin> set new"
proof -
  from resolve_log[of w "url c" 0 "events st"] obtain new where
    n: "snd (resolveVideoData w (url c) 0 (events st)) = events st @ new" "new \<noteq> []"
       "\<forall>d \<in> set (delays new). 2000 \<le> d" by blast
  have "events (runGroup w c st) = snd (resolveVideoData w (url c) 0 (events st))"
    by (cases "resolveVideoData w (url c) 0 (events st)")
       (auto simp: runGroup_def processTask_def split: sum.splits)
  moreover have "Sleep 1300 \<notin> set new"
    using n(3) by (auto simp: sleep_delays)
  ultimately show ?thesis using n by auto
qed

lemma runGroups_events:
  "\<exists>segs. length segs = length cs
         \<and> events (runGroups w cs st) = events st @ joinWith (Sleep 1300) segs
         \<and> (\<forall>s \<in> set segs. s \<noteq> [] \<and> Sleep 1300 \<notin> set s)"
proof (induction w cs st rule: runGroups.induct)
  case (1 w st)
  show ?case by (intro exI[of _ "[]"]) simp
next
  case (2 w c st)
  from runGroup_events[of w c st] obtain new where
    "events (runGroup w c st) = events st @ new" "new \<noteq> []" "Sleep 1300 \<notin> set new" by blast
  then show ?case by (intro exI[of _ "[new]"]) simp
next
  case (3 w c c' cs st)
  let ?st' = "(runGroup w c st)\<lparr>events := events (runGroup w c st) @ [Sleep 1300]\<rparr>"
  from runGroup_events[of w c st] obtain new where
    n: "events (runGroup w c st) = events st @ new" "new \<noteq> []" "Sleep 1300 \<notin> set new" by blast
  from "3.IH" obtain segs where
    s: "length segs = length (c' # cs)"
       "events (runGroups w (c' # cs) ?st') = events ?st' @ joinWith (Sleep 1300) segs"
       "\<forall>s \<in> set segs. s \<noteq> [] \<and> Sleep 1300 \<notin> set s" by blast
  from s(1) obtain s' ss where segs: "segs = s' # ss" by (cases segs) auto
  show ?case
    using n s segs by (intro exI[of _ "new # segs"]) simp
qed

lemma joinWith_count:
  "\<forall>s \<in> set segs. e \<notin> set s \<Longrightarrow> count_list (joinWith e segs) e = length segs - 1"
  by (induction e segs rule: joinWith.induct) (auto simp: count_list_0_iff)

lemma joinWith_last:
  "segs \<noteq> [] \<Longrightarrow> \<forall>s \<in> set segs. s \<noteq> [] \<and> e \<notin> set s \<Longrightarrow>
   joinWith e segs \<noteq> [] \<and> last (joinWith e segs) \<noteq> e"
proof (induction e segs rule: joinWith.induct)
  case (2 e s)
  then show ?case by (metis joinWith.simps(2) last_in_set list.set_intros(1))
qed auto

text \<open>
  Claim C9. A pass over \<open>G\<close> pending tasks (one task per group) extends the log by the logs
  of the \<open>G\<close> groups, in order, with exactly one delay of 1300 ms between each two
  consecutive groups. Every group logs at least one event and no delay of 1300 ms of
  its own, so the pass waits \<open>G - 1\<close> times for 1300 ms, and the last event of a pass that
  had something to do is not such a delay.
\<close>

theorem pacing_between_groups:
  "\<exists>segs. length segs = length (pendingTasks tasksC)
         \<and> events (processBatch w False tasksC st) = events st @ joinWith (Sleep 1300) segs
         \<and> (\<forall>s \<in> set segs. s \<noteq> [] \<and> Sleep 1300 \<notin> set s)
         \<and> count_list (joinWith (Sleep 1300) segs) (Sleep 1300) = length (pendingTasks tasksC) - 1
         \<and> (pendingTasks tasksC \<noteq> [] \<longrightarrow>
               last (events (processBatch w False tasksC st)) \<noteq> Sleep 1300)"
proof -
  let ?st0 = "st\<lparr>isProcessing := True\<rparr>"
  from runGroups_events[of "pendingTasks tasksC" w ?st0] obtain segs where
    s: "length segs = length (pendingTasks tasksC)"
       "events (runGroups w (pendingTasks tasksC) ?st0) = events ?st0 @ joinWith (Sleep 1300) segs"
       "\<forall>s \<in> set segs. s \<noteq> [] \<and> Sleep 1300 \<notin> set s" by blast
  have ev: "events (processBatch w False tasksC st) = events st @ joinWith (Sleep 1300) segs"
  proof (cases "pendingTasks tasksC = []")
    case True
    then show ?thesis using s(1) by (simp add: processBatch_def)
  next
    case False
    then show ?thesis using s(2) by (simp add: processBatch_def batchLoop_runGroups)
  qed
  have cnt: "count_list (joinWith (Sleep 1300) segs) (Sleep 1300) = length (pendingTasks tasksC) - 1"
    using joinWith_count[of segs "Sleep 1300"] s(1,3) by simp
  have lst: "pendingTasks tasksC \<noteq> [] \<longrightarrow> last (events (processBatch w False tasksC st)) \<noteq> Sleep 1300"
  proof
    assume "pendingTasks tasksC \<noteq> []"
    then have "segs \<noteq> []" using s(1) by auto
    from joinWith_last[OF this s(3)] show "last (events (processBatch w False tasksC st)) \<noteq> Sleep 1300"
      using ev by simp
  qed
  show ?thesis using s(1,3) ev cnt lst by blast
qed

theorem pacing_between_groups_witness:
  "events (processBatch (stubWorld alwaysOk) False
             [newTask (''1'', ''a''), newTask (''2'', ''b''), newTask (''3'', ''c'')]
             (idle [newTask (''1'', ''a''), newTask (''2'', ''b''), newTask (''3'', ''c'')]))
   = [Fetch ''https://corsproxy.io/?https://www.tikwm.com/api/?url=a'' (Some 8000),
      Sleep 1300,
      Fetch ''https://corsproxy.io/?https://www.tikwm.com/api/?url=b'' (Some 8000),
      Sleep 1300,
      Fetch ''https://corsproxy.io/?https://www.tikwm.com/api/?url=c'' (Some 8000)]"
  using pacing_between_groups[of "[newTask (''1'', ''a''), newTask (''2'', ''b''), newTask (''3'', ''c'')]"
          "stubWorld alwaysOk"
          "idle [newTask (''1'', ''a''), newTask (''2'', ''b''), newTask (''3'', ''c'')]"]
  by (simp add: processBatch_def idle_def pendingTasks_def
      batchLoop_runGroups runGroup_def processTask_def markDownloading_def markCompleted_def
      newTask_def resolve_alwaysOk)

section \<open>The snapshot of a scheduling pass\<close>

lemma tryStrategies_starts:
  "\<exists>rest. snd (tryStrategies w (f # fs) t ty lg) = lg @ Fetch (f t) (Some (timeoutFor ty)) # rest
          \<and> delays rest = []"
proof (cases "attempt w ty lg (f t)")
  case (Some p)
  then show ?thesis by (simp add: tryStrategies_Cons)
next
  case None
  from tryStrategies_order[of fs w t ty "lg @ [Fetch (f t) (Some (timeoutFor ty))]"]
  obtain k where "snd (tryStrategies w fs t ty (lg @ [Fetch (f t) (Some (timeoutFor ty))]))
                  = (lg @ [Fetch (f t) (Some (timeoutFor ty))]) @ requests (take k fs) t ty"
    by blast
  then show ?thesis using None by (simp add: tryStrategies_Cons delays_requests)
qed

lemma fetchWithProxies_starts:
  "\<exists>rest. snd (fetchWithProxies w t ty lg)
            = lg @ Fetch (hd (strategies w) t) (Some (timeoutFor ty)) # rest
          \<and> delays rest = []"
proof -
  have s: "strategies w = hd (strategies w) # tl (strategies w)"
    by (simp add: strategies_def)
  from tryStrategies_starts[of w "hd (strategies w)" "tl (strategies w)" t ty lg] s
  obtain rest where r: "snd (tryStrategies w (strategies w) t ty lg)
                        = lg @ Fetch (hd (strategies w) t) (Some (timeoutFor ty)) # rest"
    "delays rest = []" by auto
  show ?thesis
  proof (cases "tryStrategies w (strategies w) t ty lg")
    case (Pair res lg1)
    then have lg1: "lg1 = lg @ Fetch (hd (strategies w) t) (Some (timeoutFor ty)) # rest"
      using r(1) by simp
    show ?thesis
    proof (cases "res = None \<and> ty = TJson")
      case False
      then have "snd (fetchWithProxies w t ty lg) = lg1"
        using Pair by (auto simp: fetchWithProxies_def split: option.splits)
      then show ?thesis using lg1 r(2) by simp
    next
      case True
      then have "snd (fetchWithProxies w t ty lg) = lg1 @ [Fetch (wrappedUrl w t) None]"
        using Pair by (auto simp: fetchWithProxies_def wrappedFallback_envelope split: option.splits)
      then have "snd (fetchWithProxies w t ty lg)
                 = lg @ Fetch (hd (strategies w) t) (Some (timeoutFor ty))
                        # (rest @ [Fetch (wrappedUrl w t) None])"
        using lg1 by simp
      moreover have "delays (rest @ [Fetch (wrappedUrl w t) None]) = []"
        using r(2) by (simp add: delays_append)
      ultimately show ?thesis by blast
    qed
  qed
qed

lemma resolve_starts:
  "\<exists>rest. snd (resolveVideoData w u rc lg) = lg @ firstRequest w u # rest
          \<and> (\<forall>d \<in> set (delays rest). 2000 \<le> d)"
proof -
  obtain res lg1 where F: "fetchWithProxies w (apiUrl w u) TJson lg = (res, lg1)"
    by (cases "fetchWithProxies w (apiUrl w u) TJson lg")
  from fetchWithProxies_starts[of w "apiUrl w u" TJson lg] F obtain r1 where
    r1: "lg1 = lg @ firstRequest w u # r1" "delays r1 = []"
    by (auto simp: firstRequest_def)
  have stop: ?thesis if "snd (resolveVideoData w u rc lg) = lg1"
    using that r1 by auto
  have rec: ?thesis
    if eq: "resolveVideoData w u rc lg = resolveVideoData w u (rc + 1) (lg1 @ [Sleep ms])"
      and ms: "2000 \<le> ms" for ms
  proof -
    from resolve_log[of w u "rc + 1" "lg1 @ [Sleep ms]"] obtain x where
      x: "snd (resolveVideoData w u (rc + 1) (lg1 @ [Sleep ms])) = (lg1 @ [Sleep ms]) @ x"
         "\<forall>d \<in> set (delays x). 2000 \<le> d" by blast
    have "snd (resolveVideoData w u rc lg) = lg @ firstRequest w u # (r1 @ Sleep ms # x)"
      using eq x(1) r1(1) by simp
    moreover have "\<forall>d \<in> set (delays (r1 @ Sleep ms # x)). 2000 \<le> d"
      using x(2) r1(2) ms by (simp add: delays_append)
    ultimately show ?thesis by blast
  qed
  show ?thesis
  proof (cases "tryBlock res rc")
    case (Returned d)
    then have "snd (resolveVideoData w u rc lg) = lg1"
      using F by (subst resolveVideoData.simps) simp
    then show ?thesis by (rule stop)
  next
    case (Recurse ms)
    then have "resolveVideoData w u rc lg = resolveVideoData w u (rc + 1) (lg1 @ [Sleep ms])"
      using F by (subst resolveVideoData.simps) simp
    then show ?thesis using tryBlock_delay[OF Recurse] by (intro rec[of ms]) simp_all
  next
    case (Thrown err)
    show ?thesis
    proof (cases "message err \<noteq> [] \<and> aboutLimit (message err) \<and> rc < 3")
      case True
      then have "resolveVideoData w u rc lg = resolveVideoData w u (rc + 1) (lg1 @ [Sleep 2000])"
        using F Thrown by (subst resolveVideoData.simps) simp
      then show ?thesis by (intro rec[of 2000]) simp_all
    next
      case False
      then have "snd (resolveVideoData w u rc lg) = lg1"
        using F Thrown by (subst resolveVideoData.simps) auto
      then show ?thesis by (rule stop)
    qed
  qed
qed

lemma runGroup_trace:
  "\<exists>seg. events (runGroup w c st) = events st @ seg \<and> groupOf w c seg"
proof -
  from resolve_starts[of w "url c" 0 "events st"] obtain rest where
    n: "snd (resolveVideoData w (url c) 0 (events st)) = events st @ firstRequest w (url c) # rest"
       "\<forall>d \<in> set (delays rest). 2000 \<le> d" by blast
  have "events (runGroup w c st) = snd (resolveVideoData w (url c) 0 (events st))"
    by (cases "resolveVideoData w (url c) 0 (events st)")
       (auto simp: runGroup_def processTask_def split: sum.splits)
  moreover have "Sleep 1300 \<notin> set rest"
    using n(2) by (auto simp: sleep_delays)
  ultimately show ?thesis using n(1) by (auto simp: groupOf_def)
qed

lemma runGroups_trace:
  "\<exists>segs. list_all2 (groupOf w) cs segs
         \<and> events (runGroups w cs st) = events st @ joinWith (Sleep 1300) segs"
proof (induction w cs st rule: runGroups.induct)
  case (1 w st)
  show ?case by (intro exI[of _ "[]"]) simp
next
  case (2 w c st)
  from runGroup_trace[of w c st] obtain seg where
    "events (runGroup w c st) = events st @ seg" "groupOf w c seg" by blast
  then show ?case by (intro exI[of _ "[seg]"]) simp
next
  case (3 w c c' cs st)
  let ?st' = "(runGroup w c st)\<lparr>events := events (runGroup w c st) @ [Sleep 1300]\<rparr>"
  from runGroup_trace[of w c st] obtain seg where
    seg: "events (runGroup w c st) = events st @ seg" "groupOf w c seg" by blast
  from 3 obtain segs where
    segs: "list_all2 (groupOf w) (c' # cs) segs"
      "events (runGroups w (c' # cs) ?st') = events ?st' @ joinWith (Sleep 1300) segs" by blast
  from segs(1) obtain s' ss where ss: "segs = s' # ss" by (cases segs) auto
  have "events (runGroups w (c # c' # cs) st) = events st @ joinWith (Sleep 1300) (seg # segs)"
    using seg(1) segs(2) ss by simp
  moreover have "list_all2 (groupOf w) (c # c' # cs) (seg # segs)"
    using seg(2) segs(1) by simp
  ultimately show ?case by blast
qed

lemma processBatch_trace:
  "\<exists>segs. list_all2 (groupOf w) (pendingTasks tasksC) segs
         \<and> events (processBatch w False tasksC st) = events st @ joinWith (Sleep 1300) segs"
proof (cases "pendingTasks tasksC = []")
  case True
  then show ?thesis by (intro exI[of _ "[]"]) (simp add: processBatch_def)
next
  case False
  from runGroups_trace[of w "pendingTasks tasksC" "st\<lparr>isProcessing := True\<rparr>"] obtain segs where
    "list_all2 (groupOf w) (pendingTasks tasksC) segs"
    "events (runGroups w (pendingTasks tasksC) (st\<lparr>isProcessing := True\<rparr>))
     = events (st\<lparr>isProcessing := True\<rparr>) @ joinWith (Sleep 1300) segs" by blast
  then show ?thesis using False
    by (intro exI[of _ segs]) (simp add: processBatch_def batchLoop_runGroups)
qed

lemma settle_reset:
  "settle f r (if status t = ERROR then t\<lparr>status := IDLE, errorMessage := None, progress := 0\<rparr>
               else t) = settle f r t"
  by (simp add: settle_def split: sum.splits)

lemma pass_settles:
  assumes "distinct (map task_id ts)" and "tasks st = ts \<or> tasks st = resetErrors ts"
  shows "\<exists>L. tasks (processBatch w False ts st)
           = map (\<lambda>t. if status t = IDLE \<or> status t = ERROR
                       then settle ''Failed to fetch.'' (fst (resolveVideoData w (url t) 0 (L t))) t
                       else t) ts"
proof -
  from processBatch_tasks[OF assms(1), of w st] obtain L where L:
    "tasks (processBatch w False ts st)
           = map (\<lambda>t. case find (\<lambda>c. task_id c = task_id t) (pendingTasks ts) of
                        Some c \<Rightarrow> settle ''Failed to fetch.'' (fst (resolveVideoData w (url c) 0 (L c))) t
                      | None \<Rightarrow> t) (tasks st)"
    by blast
  let ?g = "\<lambda>t. case find (\<lambda>c. task_id c = task_id t) (pendingTasks ts) of
                        Some c \<Rightarrow> settle ''Failed to fetch.'' (fst (resolveVideoData w (url c) 0 (L c))) t
                      | None \<Rightarrow> t"
  let ?h = "\<lambda>t. if status t = IDLE \<or> status t = ERROR
                       then settle ''Failed to fetch.'' (fst (resolveVideoData w (url t) 0 (L t))) t
                       else t"
  have direct: "map ?g ts = map ?h ts"
    by (rule map_cong[OF refl]) (simp add: pendingTasks_def find_filter_distinct[OF assms(1)])
  have reset: "map ?g (resetErrors ts) = map ?h ts"
    unfolding resetErrors_def map_map
    by (rule map_cong[OF refl])
       (auto simp: pendingTasks_def find_filter_distinct[OF assms(1)] settle_def split: sum.splits)
  show ?thesis using L assms(2) direct reset by auto
qed

lemma pending_count:
  "count_list (pendingTasks ts) t
   = (if status t = IDLE \<or> status t = ERROR then count_list ts t else 0)"
  by (induction ts) (auto simp: pendingTasks_def)

text \<open>
  Claim C7, as amended. In a queue with unique identifiers and with no pass running, the
  snapshot of a pass holds the tasks whose status is IDLE or ERROR in the list that the
  closure of the pass holds, in the order of the list. "Start Download" runs one group
  for each task of the snapshot, in this order and with a pause of 1300 ms between two
  groups, settles each of these tasks from the resolution of its own source, and leaves
  every other task as it is; a task in ERROR is taken as it is, with no reset before.
  "Retry Failed" resets the failed tasks, which leaves no task in ERROR, waits 100 ms
  and then runs a pass on the reset list whose snapshot is that of the list from before
  the reset: the same groups in the same order, the same tasks settled.
\<close>

theorem pending_snapshot:
  assumes "distinct (map task_id (tasks st))" and "\<not> isProcessing st"
  shows "(\<exists>L segs.
            tasks (startDownload w st)
              = map (\<lambda>t. if t \<in> set (pendingTasks (tasks st))
                          then settle ''Failed to fetch.'' (fst (resolveVideoData w (url t) 0 (L t))) t
                          else t) (tasks st)
            \<and> list_all2 (groupOf w) (pendingTasks (tasks st)) segs
            \<and> events (startDownload w st) = events st @ joinWith (Sleep 1300) segs)
       \<and> (\<exists>L segs.
            tasks (handleRetryAllErrors w st)
              = map (\<lambda>t. if t \<in> set (pendingTasks (tasks st))
                          then settle ''Failed to fetch.'' (fst (resolveVideoData w (url t) 0 (L t))) t
                          else t) (tasks st)
            \<and> list_all2 (groupOf w) (pendingTasks (tasks st)) segs
            \<and> events (handleRetryAllErrors w st)
                = events st @ Sleep 100 # joinWith (Sleep 1300) segs)
       \<and> handleRetryAllErrors w st
           = processBatch w False (tasks st)
               (st\<lparr>tasks := resetErrors (tasks st), events := events st @ [Sleep 100]\<rparr>)
       \<and> (\<forall>t \<in> set (resetErrors (tasks st)). status t \<noteq> ERROR)
       \<and> subseq (pendingTasks (tasks st)) (tasks st)
       \<and> (\<forall>t. count_list (pendingTasks (tasks st)) t
                = (if status t = IDLE \<or> status t = ERROR then count_list (tasks st) t else 0))"
proof (intro conjI)
  let ?ts = "tasks st"
  have mem: "\<And>t. t \<in> set ?ts \<Longrightarrow>
               (t \<in> set (pendingTasks ?ts)) = (status t = IDLE \<or> status t = ERROR)"
    by (simp add: pendingTasks_def)
  have form: "\<And>L. map (\<lambda>t. if status t = IDLE \<or> status t = ERROR
                       then settle ''Failed to fetch.'' (fst (resolveVideoData w (url t) 0 (L t))) t
                       else t) ?ts
              = map (\<lambda>t. if t \<in> set (pendingTasks ?ts)
                          then settle ''Failed to fetch.'' (fst (resolveVideoData w (url t) 0 (L t))) t
                          else t) ?ts"
    by (rule map_cong[OF refl]) (simp add: mem)
  from pass_settles[OF assms(1), of st w] obtain L where
    L: "tasks (processBatch w False ?ts st)
        = map (\<lambda>t. if status t = IDLE \<or> status t = ERROR
                    then settle ''Failed to fetch.'' (fst (resolveVideoData w (url t) 0 (L t))) t
                    else t) ?ts" by auto
  from processBatch_trace[of w ?ts st] obtain segs where
    segs: "list_all2 (groupOf w) (pendingTasks ?ts) segs"
      "events (processBatch w False ?ts st) = events st @ joinWith (Sleep 1300) segs" by blast
  show "\<exists>L segs.
            tasks (startDownload w st)
              = map (\<lambda>t. if t \<in> set (pendingTasks (tasks st))
                          then settle ''Failed to fetch.'' (fst (resolveVideoData w (url t) 0 (L t))) t
                          else t) (tasks st)
            \<and> list_all2 (groupOf w) (pendingTasks (tasks st)) segs
            \<and> events (startDownload w st) = events st @ joinWith (Sleep 1300) segs"
    using L segs assms(2) form[of L]
    by (intro exI[of _ L] exI[of _ segs]) (simp add: startDownload_def)
  let ?st' = "st\<lparr>tasks := resetErrors ?ts, events := events st @ [Sleep 100]\<rparr>"
  from pass_settles[OF assms(1), of ?st' w] obtain L' where
    L': "tasks (processBatch w False ?ts ?st')
        = map (\<lambda>t. if status t = IDLE \<or> status t = ERROR
                    then settle ''Failed to fetch.'' (fst (resolveVideoData w (url t) 0 (L' t))) t
                    else t) ?ts" by auto
  from processBatch_trace[of w ?ts ?st'] obtain segs' where
    segs': "list_all2 (groupOf w) (pendingTasks ?ts) segs'"
      "events (processBatch w False ?ts ?st') = events ?st' @ joinWith (Sleep 1300) segs'" by blast
  show "\<exists>L segs.
            tasks (handleRetryAllErrors w st)
              = map (\<lambda>t. if t \<in> set (pendingTasks (tasks st))
                          then settle ''Failed to fetch.'' (fst (resolveVideoData w (url t) 0 (L t))) t
                          else t) (tasks st)
            \<and> list_all2 (groupOf w) (pendingTasks (tasks st)) segs
            \<and> events (handleRetryAllErrors w st)
                = events st @ Sleep 100 # joinWith (Sleep 1300) segs"
    using L' segs' assms(2) form[of L']
    by (intro exI[of _ L'] exI[of _ segs']) (simp add: handleRetryAllErrors_def)
  show "handleRetryAllErrors w st
        = processBatch w False (tasks st)
            (st\<lparr>tasks := resetErrors (tasks st), events := events st @ [Sleep 100]\<rparr>)"
    using assms(2) by (simp add: handleRetryAllErrors_def)
  show "\<forall>t \<in> set (resetErrors (tasks st)). status t \<noteq> ERROR"
    by (auto simp: resetErrors_def)
  show "subseq (pendingTasks (tasks st)) (tasks st)"
    by (simp add: pendingTasks_def)
  show "\<forall>t. count_list (pendingTasks (tasks st)) t
            = (if status t = IDLE \<or> status t = ERROR then count_list (tasks st) t else 0)"
    by (simp add: pending_count)
qed


lemma run_mixed3:
  "map status (tasks (startDownload (stubWorld oneBad) (idle mixed3))) = [COMPLETED, ERROR, COMPLETED]"
  "events (startDownload (stubWorld oneBad) (idle mixed3))
   = [Fetch ''https://corsproxy.io/?https://www.tikwm.com/api/?url=good1'' (Some 8000),
      Sleep 1300,
      Fetch ''https://corsproxy.io/?https://www.tikwm.com/api/?url=bad'' (Some 8000),
      Fetch ''https://api.allorigins.win/raw?url=https://www.tikwm.com/api/?url=bad'' (Some 8000),
      Fetch ''https://api.codetabs.com/v1/proxy?quest=https://www.tikwm.com/api/?url=bad'' (Some 8000),
      Fetch ''https://www.tikwm.com/api/?url=bad'' (Some 8000),
      Fetch ''https://api.allorigins.win/get?url=https://www.tikwm.com/api/?url=bad'' None]"
  "map status (tasks (handleRetryAllErrors (stubWorld oneBad) (idle mixed3)))
   = [COMPLETED, ERROR, COMPLETED]"
  "events (handleRetryAllErrors (stubWorld oneBad) (idle mixed3))
   = [Sleep 100,
      Fetch ''https://corsproxy.io/?https://www.tikwm.com/api/?url=good1'' (Some 8000),
      Sleep 1300,
      Fetch ''https://corsproxy.io/?https://www.tikwm.com/api/?url=bad'' (Some 8000),
      Fetch ''https://api.allorigins.win/raw?url=https://www.tikwm.com/api/?url=bad'' (Some 8000),
      Fetch ''https://api.codetabs.com/v1/proxy?quest=https://www.tikwm.com/api/?url=bad'' (Some 8000),
      Fetch ''https://www.tikwm.com/api/?url=bad'' (Some 8000),
      Fetch ''https://api.allorigins.win/get?url=https://www.tikwm.com/api/?url=bad'' None]"
  by (simp_all add: startDownload_def handleRetryAllErrors_def processBatch_def idle_def mixed3_def
      pendingTasks_def resetErrors_def doneTask_def
      batchLoop_runGroups runGroup_def processTask_def markDownloading_def markCompleted_def
      markFailed_def newTask_def
      resolve_oneBad_good1 resolve_oneBad_bad)

theorem pending_snapshot_witness:
  "distinct (map task_id (tasks (idle mixed3))) \<and> \<not> isProcessing (idle mixed3)
   \<and> map status (tasks (idle mixed3)) = [IDLE, ERROR, COMPLETED]
   \<and> map task_id (pendingTasks (tasks (idle mixed3))) = [''1'', ''2'']
   \<and> map status (tasks (startDownload (stubWorld oneBad) (idle mixed3)))
     = [COMPLETED, ERROR, COMPLETED]
   \<and> events (startDownload (stubWorld oneBad) (idle mixed3))
     = [Fetch ''https://corsproxy.io/?https://www.tikwm.com/api/?url=good1'' (Some 8000),
        Sleep 1300,
        Fetch ''https://corsproxy.io/?https://www.tikwm.com/api/?url=bad'' (Some 8000),
        Fetch ''https://api.allorigins.win/raw?url=https://www.tikwm.com/api/?url=bad'' (Some 8000),
        Fetch ''https://api.codetabs.com/v1/proxy?quest=https://www.tikwm.com/api/?url=bad'' (Some 8000),
        Fetch ''https://www.tikwm.com/api/?url=bad'' (Some 8000),
        Fetch ''https://api.allorigins.win/get?url=https://www.tikwm.com/api/?url=bad'' None]
   \<and> events (handleRetryAllErrors (stubWorld oneBad) (idle mixed3))
     = Sleep 100 # events (startDownload (stubWorld oneBad) (idle mixed3))"
proof -
  have d: "distinct (map task_id (tasks (idle mixed3)))"
    by (simp add: idle_def mixed3_def doneTask_def newTask_def)
  have p: "\<not> isProcessing (idle mixed3)"
    by (simp add: idle_def)
  have s: "map status (tasks (idle mixed3)) = [IDLE, ERROR, COMPLETED]"
    "map task_id (pendingTasks (tasks (idle mixed3))) = [''1'', ''2'']"
    by (simp_all add: idle_def mixed3_def doneTask_def newTask_def pendingTasks_def)
  from pending_snapshot[OF d p, of "stubWorld oneBad"]
  have "\<exists>segs. list_all2 (groupOf (stubWorld oneBad)) (pendingTasks (tasks (idle mixed3))) segs
          \<and> events (handleRetryAllErrors (stubWorld oneBad) (idle mixed3))
              = events (idle mixed3) @ Sleep 100 # joinWith (Sleep 1300) segs"
    by blast
  then show ?thesis
    using d p s by (simp add: run_mixed3)
qed

text \<open>
  The claim as stated fails: a pass started directly on a list with a failed task takes
  that task into its snapshot and resolves it; no reset to IDLE comes first.
\<close>

theorem pending_snapshot_counterexample:
  "status failedTask = ERROR
   \<and> pendingTasks [failedTask] = [failedTask]
   \<and> map status (tasks (startDownload (stubWorld alwaysOk) (idle [failedTask]))) = [COMPLETED]"
  by (simp add: resolve_alwaysOk pendingTasks_def failedTask_def newTask_def startDownload_def
      processBatch_def idle_def BATCH_SIZE_def markDownloading_def processTask_def markCompleted_def
      batchLoop.simps[of _ _ 0] batchLoop.simps[of _ _ "Suc 0"])

section \<open>The archive\<close>















lemma settleAll_Nil: "settleAll w sched [] s = (sched, s)"
  by (simp add: settleAll.simps[of w sched "[]" s])

lemma settleAll_step:
  "act \<noteq> [] \<Longrightarrow>
   settleAll w sched act s =
     (if fst (resume w (act ! pick sched act) s) = None
      then settleAll w (tl sched) (take (pick sched act) act @ drop (Suc (pick sched act)) act)
             (snd (resume w (act ! pick sched act) s))
      else settleAll w (tl sched)
             ((take (pick sched act) act @ drop (Suc (pick sched act)) act)
                @ [the (fst (resume w (act ! pick sched act) s))])
             (snd (resume w (act ! pick sched act) s)))"
  by (subst settleAll.simps) (auto simp: Let_def split: prod.splits option.splits)

lemma zipLoop_short:
  assumes "cs \<noteq> []" and "length cs \<le> 3"
  shows "zipLoop w sched cs 0 s
         = snd (settleAll w sched (fst (fold (startMember w) cs ([], s)))
                                   (snd (fold (startMember w) cs ([], s))))"
  using assms
  by (simp add: zipLoop.simps[of w sched cs 0] zipLoop.simps[of w _ cs 3] DOWNLOAD_BATCH_def
      split: prod.splits)

lemma pick_single: "pick sched [m] = 0"
  by (simp add: pick_def split: list.splits)

lemma settle_single:
  assumes "k < length (strategies w)"
    and "zlog s = lg @ [Fetch ((strategies w ! k) (target t)) (Some (timeoutFor TBlob))]"
  shows "snd (settleAll w sched
                [Pending t n (attempt w TBlob lg ((strategies w ! k) (target t))) (Suc k)] s)
         = (case tryStrategies w (drop k (strategies w)) (target t) TBlob lg of
              (Some p, lg') \<Rightarrow>
                s\<lparr>zip := zipFile (n @ ''.mp4'') (payloadData p) (zip s), zlog := lg'\<rparr>
            | (None, lg') \<Rightarrow>
                s\<lparr>zip := zipFile (n @ ''_error.txt'') (TextData (placeholder t)) (zip s),
                  zlog := lg'\<rparr>)"
  using assms
proof (induction "length (strategies w) - k" arbitrary: k lg s sched rule: less_induct)
  case less
  let ?u = "(strategies w ! k) (target t)"
  let ?m = "Pending t n (attempt w TBlob lg ?u) (Suc k)"
  have dr: "drop k (strategies w) = (strategies w ! k) # drop (Suc k) (strategies w)"
    using less.prems(1) by (simp add: Cons_nth_drop_Suc)
  show ?case
  proof (cases "attempt w TBlob lg ?u")
    case (Some p)
    then show ?thesis
      using less.prems(2)[symmetric]
      by (simp add: dr tryStrategies_Cons settleAll_step pick_single resume_def settleAll_Nil)
  next
    case None
    show ?thesis
    proof (cases "Suc k < length (strategies w)")
      case False
      then have "drop (Suc k) (strategies w) = []" by simp
      then show ?thesis
        using None False less.prems(2)
        by (simp add: dr tryStrategies_Cons settleAll_step pick_single resume_def settleAll_Nil)
    next
      case True
      let ?u' = "(strategies w ! Suc k) (target t)"
      let ?s' = "s\<lparr>zlog := zlog s @ [Fetch ?u' (Some (timeoutFor TBlob))]\<rparr>"
      have step: "settleAll w sched [?m] s
                  = settleAll w (tl sched) [Pending t n (attempt w TBlob (zlog s) ?u') (Suc (Suc k))] ?s'"
        using None True
        by (subst settleAll_step)
           (simp_all add: pick_single resume_def issue_def Let_def target_def)
      have m: "length (strategies w) - Suc k < length (strategies w) - k"
        using True by simp
      have z: "zlog ?s' = zlog s @ [Fetch ?u' (Some (timeoutFor TBlob))]" by simp
      show ?thesis
        unfolding step less.hyps[OF m True z]
        using None less.prems(2)
        by (simp add: dr tryStrategies_Cons split: prod.splits option.splits)
    qed
  qed
qed

text \<open>
  A chunk of one member is \<^verbatim>\<open>fetchWithProxies(task.downloadUrl, 'blob')\<close> followed by the
  write of the media file or of the placeholder, whatever the schedule.
\<close>

lemma member_alone:
  assumes "truthyU (downloadUrl t)" and "safeTitle t = Inr n"
  shows "zipLoop w sched [t] 0 s
         = (case fetchWithProxies w (toStringU (downloadUrl t)) TBlob (zlog s) of
              (Inr p, lg) \<Rightarrow>
                s\<lparr>zip := zipFile (n @ ''.mp4'') (payloadData p) (zip s), zlog := lg\<rparr>
            | (Inl e, lg) \<Rightarrow>
                s\<lparr>zip := zipFile (n @ ''_error.txt'') (TextData (placeholder t)) (zip s),
                  zlog := lg\<rparr>)"
proof -
  have four: "0 < length (strategies w)" by (simp add: strategies_def)
  let ?u = "(strategies w ! 0) (target t)"
  let ?s1 = "s\<lparr>zlog := zlog s @ [Fetch ?u (Some (timeoutFor TBlob))]\<rparr>"
  have st: "startMember w t ([], s)
            = ([Pending t n (attempt w TBlob (zlog s) ?u) (Suc 0)], ?s1)"
    using assms by (simp add: startMember_def issue_def Let_def target_def)
  have z: "zlog ?s1 = zlog s @ [Fetch ?u (Some (timeoutFor TBlob))]" by simp
  have "zipLoop w sched [t] 0 s
        = snd (settleAll w sched [Pending t n (attempt w TBlob (zlog s) ?u) (Suc 0)] ?s1)"
    by (simp add: zipLoop_short st)
  also have "\<dots> = (case tryStrategies w (strategies w) (target t) TBlob (zlog s) of
              (Some p, lg') \<Rightarrow>
                ?s1\<lparr>zip := zipFile (n @ ''.mp4'') (payloadData p) (zip ?s1), zlog := lg'\<rparr>
            | (None, lg') \<Rightarrow>
                ?s1\<lparr>zip := zipFile (n @ ''_error.txt'') (TextData (placeholder t)) (zip ?s1),
                  zlog := lg'\<rparr>)"
    using settle_single[OF four z, of sched n] by simp
  finally show ?thesis
    by (simp add: fetchWithProxies_def target_def split: prod.splits option.splits)
qed


lemma sanitize_examples:
  "sanitize ''My Video!'' = ''My_Video_''" "sanitize ''video_b'' = ''video_b''"
  "sanitize ''demo'' = ''demo''"
  by (simp_all add: sanitize_def isAlnum_def)

lemmas run_defs = startMember_def doneTask_def newTask_def truthyU_def toStringU_def
        safeTitle_def sanitize_examples issue_def strategies_def attempt_def stubWorld_def
        thirdRelay_def timeoutFor_def Let_def resume_def settleAll_step settleAll_Nil pick_def
        zipFile_def placeholder_def folderPath_def










text \<open>
  The order of the entries is the order of arrival: the same queue under two schedules.
\<close>

lemma archive_order_by_arrival:
  "zip (snd (settleAll (stubWorld thirdRelay) []
           (fst (fold (startMember (stubWorld thirdRelay)) bothLive
                  ([], \<lparr>zip = [(folderPath, Folder)], zlog = [], rejected = False\<rparr>)))
           (snd (fold (startMember (stubWorld thirdRelay)) bothLive
                  ([], \<lparr>zip = [(folderPath, Folder)], zlog = [], rejected = False\<rparr>)))))
   = [(''TikTok_Batch_Download/'', Folder),
      (''TikTok_Batch_Download/My_Video_.mp4'', BlobData ''bytes''),
      (''TikTok_Batch_Download/video_b.mp4'', BlobData ''bytes'')]"
  "zip (snd (settleAll (stubWorld thirdRelay) [1, 1, 1]
           (fst (fold (startMember (stubWorld thirdRelay)) bothLive
                  ([], \<lparr>zip = [(folderPath, Folder)], zlog = [], rejected = False\<rparr>)))
           (snd (fold (startMember (stubWorld thirdRelay)) bothLive
                  ([], \<lparr>zip = [(folderPath, Folder)], zlog = [], rejected = False\<rparr>)))))
   = [(''TikTok_Batch_Download/'', Folder),
      (''TikTok_Batch_Download/video_b.mp4'', BlobData ''bytes''),
      (''TikTok_Batch_Download/My_Video_.mp4'', BlobData ''bytes'')]"
  by (simp_all add: bothLive_def run_defs)

end
